theory Spec2Isabelle
  imports Main "HOL-Library.Word" "HOL-Library.List_Lexorder" "HOL-Library.Char_ord"
begin

section \<open>protoc-gen-doc: the document model builder of src/main.cpp\<close>

text \<open>
  The plugin turns the descriptors of the parsed .proto files into a list of
  QVariantHash records, one per file, and renders that list once, on the last file.
  This theory embeds main.cpp function by function. The Qt and protobuf library
  calls the code makes are modelled by what they return on the values the code
  passes them; each such function says so where it is defined.
\<close>

subsection \<open>QString\<close>

text \<open>
  A QString is a \<^typ>\<open>string\<close>; the text of the descriptors and of the files
  is taken to be ASCII. The default-constructed QString() and the empty string
  are not told apart by the code (it only asks isEmpty, startsWith, size), so
  both are \<open>''''\<close>. Comparison with \<open><\<close> is by code unit, which is the
  lexicographic order on the characters. \<open>trimmed\<close> removes the white space
  of ASCII at both ends.
\<close>

definition isSpace :: "char \<Rightarrow> bool" where
  "isSpace c = (c \<in> set [CHR '' '', CHR 0x09, CHR 0x0A, CHR 0x0B, CHR 0x0C, CHR 0x0D])"

definition trimmed :: "string \<Rightarrow> string" where
  "trimmed s = rev (dropWhile isSpace (rev (dropWhile isSpace s)))"

definition startsWith :: "string \<Rightarrow> string \<Rightarrow> bool" where
  "startsWith s p = (take (length p) s = p)"

text \<open>QString::mid(position): the string from \<open>position\<close> on.\<close>

definition mid :: "string \<Rightarrow> nat \<Rightarrow> string" where
  "mid s position = drop position s"

text \<open>
  QString::mid(position, n): \<open>n\<close> characters from \<open>position\<close>; everything from
  \<open>position\<close> on when \<open>n\<close> is negative.
\<close>

definition mid_n :: "string \<Rightarrow> nat \<Rightarrow> int \<Rightarrow> string" where
  "mid_n s position n = (if n < 0 then drop position s else take (nat n) (drop position s))"

text \<open>
  QString::left(n): the first \<open>n\<close> characters; the whole string when \<open>n\<close> is
  negative or not less than the size.
\<close>

definition left :: "string \<Rightarrow> int \<Rightarrow> string" where
  "left s n = (if n < 0 \<or> int (length s) \<le> n then s else take (nat n) s)"

text \<open>QString::indexOf(str): the first position where \<open>str\<close> occurs, or -1.\<close>

fun indexOf :: "string \<Rightarrow> string \<Rightarrow> int" where
  "indexOf [] p = (if p = [] then 0 else -1)"
| "indexOf (c # cs) p =
     (if startsWith (c # cs) p then 0
      else (let i = indexOf cs p in if i < 0 then -1 else i + 1))"

text \<open>
  QString::split(sep) for a one-character separator, empty parts kept: the
  string between the separators, so the result is never the empty list.
\<close>

fun QString_split :: "char \<Rightarrow> string \<Rightarrow> string list" where
  "QString_split sep [] = [[]]"
| "QString_split sep (c # cs) =
     (if c = sep then [] # QString_split sep cs
      else (case QString_split sep cs of
              t # ts \<Rightarrow> (c # t) # ts
            | [] \<Rightarrow> [[c]]))"

text \<open>QStringList::join(sep).\<close>

fun QStringList_join :: "string \<Rightarrow> string list \<Rightarrow> string" where
  "QStringList_join sep [] = []"
| "QStringList_join sep [s] = s"
| "QStringList_join sep (s # t # ts) = s @ sep @ QStringList_join sep (t # ts)"

text \<open>QString::number on an integer: base ten, a minus sign when negative.\<close>

function digits :: "nat \<Rightarrow> string" where
  "digits n = (if n < 10 then [''0123456789'' ! n]
               else digits (n div 10) @ [''0123456789'' ! (n mod 10)])"
  by pat_completeness auto
termination
  by (relation "measure id") auto

declare digits.simps [simp del]

definition QString_number :: "int \<Rightarrow> string" where
  "QString_number i = (if i < 0 then CHR ''-'' # digits (nat (- i)) else digits (nat i))"

text \<open>
  QString::arg(a), as Qt 5 does it. A place marker is a percent sign, an
  optional \<open>L\<close>, and one or two digits; \<open>parse_escape\<close> reads what follows a
  percent sign and gives the number of the marker and how many characters it
  takes. \<open>arg_pieces\<close> cuts a string into its place markers and the characters
  between them. arg replaces every marker that has the lowest number in the
  string; without a marker the string is returned as it is. So in a chain
  \<open>QString("%1: %2").arg(a).arg(b)\<close> the second arg also sees the markers
  that \<open>a\<close> brought in.
\<close>

definition isDigit :: "char \<Rightarrow> bool" where
  "isDigit c = (48 \<le> (of_char c :: nat) \<and> (of_char c :: nat) \<le> 57)"

definition digitValue :: "char \<Rightarrow> nat" where
  "digitValue c = of_char c - 48"

definition parse_escape :: "string \<Rightarrow> (nat \<times> nat) option" where
  "parse_escape cs =
     (let skip = (if take 1 cs = ''L'' then 1 else 0) in
      case drop skip cs of
        [] \<Rightarrow> None
      | d1 # rest \<Rightarrow>
          if \<not> isDigit d1 then None
          else
            (case rest of
               [] \<Rightarrow> Some (digitValue d1, skip + 1)
             | d2 # _ \<Rightarrow>
                 if isDigit d2 then Some (10 * digitValue d1 + digitValue d2, skip + 2)
                 else Some (digitValue d1, skip + 1)))"

datatype ArgPiece = Plain char | Marker nat string

function arg_pieces :: "string \<Rightarrow> ArgPiece list" where
  "arg_pieces [] = []"
| "arg_pieces (c # cs) =
     (if c = CHR ''%'' then
        (case parse_escape cs of
           Some (n, k) \<Rightarrow> Marker n (c # take k cs) # arg_pieces (drop k cs)
         | None \<Rightarrow> Plain c # arg_pieces cs)
      else Plain c # arg_pieces cs)"
  by pat_completeness auto
termination
  by (relation "measure length") auto

definition marker_numbers :: "ArgPiece list \<Rightarrow> nat list" where
  "marker_numbers pieces = concat (map (\<lambda>p. case p of Marker n t \<Rightarrow> [n] | Plain c \<Rightarrow> []) pieces)"

definition QString_arg :: "string \<Rightarrow> string \<Rightarrow> string" where
  "QString_arg s a =
     (let pieces = arg_pieces s;
          numbers = marker_numbers pieces
      in
        if numbers = [] then s
        else
          concat (map (\<lambda>p. case p of
                               Plain c \<Rightarrow> [c]
                             | Marker n t \<Rightarrow> if n = fold min numbers (hd numbers) then a else t)
                    pieces))"

text \<open>
  QString::replace(QRegularExpression("^ ", MultilineOption), ""): one space is
  removed at the start of the string and after each line feed. The flag says
  whether the position is at the start of a line.
\<close>

fun remove_line_start_space :: "bool \<Rightarrow> string \<Rightarrow> string" where
  "remove_line_start_space at_start [] = []"
| "remove_line_start_space at_start (c # cs) =
     (if at_start \<and> c = CHR '' '' then remove_line_start_space False cs
      else c # remove_line_start_space (c = CHR 0x0A) cs)"

text \<open>
  QByteArray(const char *) reads up to the first zero byte, and toHex writes two
  lower-case hexadecimal digits per byte.
\<close>

definition c_str :: "string \<Rightarrow> string" where
  "c_str s = takeWhile (\<lambda>c. c \<noteq> CHR 0x00) s"

definition hexByte :: "char \<Rightarrow> string" where
  "hexByte c = [''0123456789abcdef'' ! (of_char c div 16), ''0123456789abcdef'' ! (of_char c mod 16)]"

definition toHex :: "string \<Rightarrow> string" where
  "toHex bytes = concat (map hexByte bytes)"

text \<open>QFileInfo(path).fileName(): what follows the last slash.\<close>

definition fileName_of :: "string \<Rightarrow> string" where
  "fileName_of path = rev (takeWhile (\<lambda>c. c \<noteq> CHR ''/'') (rev path))"

subsection \<open>QVariant\<close>

text \<open>
  The records of the document model are QVariantHash values. A hash is kept as
  the list of its entries in insertion order; every record below sets each key
  once. Reading a key that is absent gives the invalid QVariant, whose toString
  is the empty string: this is what \<open>v.toHash()["key"].toString()\<close> does.
\<close>

datatype QVariant =
    VInvalid
  | VString string
  | VBool bool
  | VInt int
  | VList "QVariant list"
  | VHash "(string \<times> QVariant) list"

definition toHash :: "QVariant \<Rightarrow> (string \<times> QVariant) list" where
  "toHash v = (case v of VHash h \<Rightarrow> h | _ \<Rightarrow> [])"

definition lookup :: "(string \<times> QVariant) list \<Rightarrow> string \<Rightarrow> QVariant" where
  "lookup h key = (case map_of h key of Some v \<Rightarrow> v | None \<Rightarrow> VInvalid)"

definition toString :: "QVariant \<Rightarrow> string" where
  "toString v =
     (case v of
        VString s \<Rightarrow> s
      | VBool b \<Rightarrow> (if b then ''true'' else ''false'')
      | VInt i \<Rightarrow> QString_number i
      | _ \<Rightarrow> [])"

definition toList :: "QVariant \<Rightarrow> QVariant list" where
  "toList v = (case v of VList l \<Rightarrow> l | _ \<Rightarrow> [])"

subsection \<open>Descriptors\<close>

text \<open>
  The code follows a pointer to a Descriptor or an EnumDescriptor only upwards:
  it reads name(), full_name() and containing_type(). What such a pointer gives
  is a \<open>TypeRef\<close>, the chain of the enclosing message types; a null pointer is
  \<open>None\<close>. Pointers the code dereferences without a test (message_type() of a
  message field, enum_type() of an enum field, default_value_enum(), input_type()
  and output_type()) are never null in the library and are plain values.
\<close>

datatype TypeRef =
  TypeRef (name: string) (full_name: string) (containing_type: "TypeRef option")

record SourceLocation =
  leading_comments :: string
  trailing_comments :: string

datatype Type =
    TYPE_DOUBLE | TYPE_FLOAT | TYPE_INT64 | TYPE_UINT64 | TYPE_INT32
  | TYPE_FIXED64 | TYPE_FIXED32 | TYPE_BOOL | TYPE_STRING | TYPE_GROUP
  | TYPE_MESSAGE | TYPE_BYTES | TYPE_UINT32 | TYPE_ENUM | TYPE_SFIXED32
  | TYPE_SFIXED64 | TYPE_SINT32 | TYPE_SINT64

datatype CppType =
    CPPTYPE_INT32 | CPPTYPE_INT64 | CPPTYPE_UINT32 | CPPTYPE_UINT64
  | CPPTYPE_DOUBLE | CPPTYPE_FLOAT | CPPTYPE_BOOL | CPPTYPE_ENUM
  | CPPTYPE_STRING | CPPTYPE_MESSAGE

datatype Label = LABEL_OPTIONAL | LABEL_REQUIRED | LABEL_REPEATED

text \<open>
  A FieldDescriptor, for a field and for an extension alike. The integer
  defaults have their machine width; a floating-point default is kept as its
  bit pattern and is only ever handed to QString::number.
\<close>

record FieldDescriptor =
  field_name :: string
  field_full_name :: string
  field_location :: SourceLocation
  is_extension :: bool
  extension_scope :: "TypeRef option"
  field_containing_type :: "TypeRef option"
  label :: Label
  number :: int
  type :: Type
  cpp_type :: CppType
  message_type :: TypeRef
  enum_type :: TypeRef
  has_default_value :: bool
  default_value_string :: string
  default_value_bool :: bool
  default_value_float :: "32 word"
  default_value_double :: "64 word"
  default_value_int32 :: "32 word"
  default_value_int64 :: "64 word"
  default_value_uint32 :: "32 word"
  default_value_uint64 :: "64 word"
  default_value_enum :: string

record EnumValueDescriptor =
  value_name :: string
  value_number :: int
  value_location :: SourceLocation

record EnumDescriptor =
  enum_ref :: TypeRef
  enum_location :: SourceLocation
  enum_values :: "EnumValueDescriptor list"

datatype Descriptor =
  Descriptor
    (message_ref: TypeRef)
    (message_location: SourceLocation)
    (message_fields: "FieldDescriptor list")
    (message_extensions: "FieldDescriptor list")
    (nested_types: "Descriptor list")
    (enum_types: "EnumDescriptor list")

record MethodDescriptor =
  method_name :: string
  method_location :: SourceLocation
  input_type :: TypeRef
  output_type :: TypeRef

record ServiceDescriptor =
  service_name :: string
  service_full_name :: string
  service_location :: SourceLocation
  service_methods :: "MethodDescriptor list"

record FileDescriptor =
  file_name :: string
  package :: string
  file_message_types :: "Descriptor list"
  file_enum_types :: "EnumDescriptor list"
  file_services :: "ServiceDescriptor list"
  file_extensions :: "FieldDescriptor list"

subsection \<open>longName\<close>

text \<open>
  The template \<open>longName<T>\<close>, for T a Descriptor or an EnumDescriptor: both
  give name() and containing_type(), which is what a \<open>TypeRef\<close> holds.
\<close>

fun longName :: "TypeRef option \<Rightarrow> string" where
  "longName None = []"
| "longName (Some (TypeRef n f None)) = n"
| "longName (Some (TypeRef n f (Some c))) = longName (Some c) @ ''.'' @ n"

text \<open>The specialisation for a FieldDescriptor.\<close>

definition longName_field :: "FieldDescriptor \<Rightarrow> string" where
  "longName_field fieldDescriptor =
     (if is_extension fieldDescriptor
      then longName (extension_scope fieldDescriptor) @ ''.'' @ field_name fieldDescriptor
      else longName (field_containing_type fieldDescriptor) @ ''.'' @ field_name fieldDescriptor)"

subsection \<open>What the code reads from outside\<close>

text \<open>
  The result of the template engine: Mustache::Renderer::render with what
  error(), errorPos() and errorPartial() say afterwards.
\<close>

record Rendering =
  rendered :: string
  renderer_error :: string
  renderer_errorPos :: int
  renderer_errorPartial :: string

text \<open>
  \<open>open_file\<close> is QFile::open(ReadOnly) followed by reading the file: the
  errorString of the failed open, or the text of the file. It serves the .proto
  files and the resources under \<open>:/templates\<close> alike. \<open>templates\<close> are
  the base names of the *.mustache files among the resources. \<open>number_double\<close> is
  QString::number(double) and \<open>float_to_double\<close> the promotion of a float
  argument, both on bit patterns. \<open>fromVariant\<close> is QJsonDocument::fromVariant
  followed by toJson, \<open>None\<close> when the document is null. \<open>fromJson\<close> is
  QJsonDocument::fromJson(...).array().toVariantList(). \<open>mustache\<close> is the
  template engine, run on a template, the list of files and the table of scalar
  types; the three filters the code registers are part of it. \<open>sort_long_range\<close>
  is std::sort on a range of more than sixteen elements.
\<close>

record Environment =
  open_file :: "string \<Rightarrow> string + string"
  templates :: "string list"
  number_double :: "64 word \<Rightarrow> string"
  float_to_double :: "32 word \<Rightarrow> 64 word"
  fromVariant :: "QVariant list \<Rightarrow> string option"
  fromJson :: "string \<Rightarrow> QVariant list"
  mustache :: "string \<Rightarrow> QVariant list \<Rightarrow> QVariant list \<Rightarrow> Rendering"
  sort_long_range :: "(QVariant \<Rightarrow> QVariant \<Rightarrow> bool) \<Rightarrow> QVariant list \<Rightarrow> QVariant list"

subsection \<open>longNameLessThan and std::sort\<close>

definition longNameLessThan :: "QVariant \<Rightarrow> QVariant \<Rightarrow> bool" where
  "longNameLessThan v1 v2 =
     (if toString (lookup (toHash v1) ''message_long_name'')
           < toString (lookup (toHash v2) ''message_long_name'') then True
      else if toString (lookup (toHash v1) ''enum_long_name'')
           < toString (lookup (toHash v2) ''enum_long_name'') then True
      else toString (lookup (toHash v1) ''extension_long_name'')
           < toString (lookup (toHash v2) ''extension_long_name''))"

text \<open>
  std::sort, as the libstdc++ the Dockerfile builds with runs it. On a range of
  at most sixteen elements it is its insertion sort: each element is moved to
  the front when it is less than the first one, and otherwise moved left past
  every element it is less than. \<open>linear_insert\<close> walks the sorted part from
  its right end, so it takes that part reversed. On a longer range std::sort
  partitions first; that part of the library is not embedded and is the
  \<open>sort_long_range\<close> of the environment.
\<close>

fun linear_insert :: "('a \<Rightarrow> 'a \<Rightarrow> bool) \<Rightarrow> 'a \<Rightarrow> 'a list \<Rightarrow> 'a list" where
  "linear_insert cmp v [] = [v]"
| "linear_insert cmp v (p # ps) =
     (if cmp v p then p # linear_insert cmp v ps else v # p # ps)"

definition insertion_step :: "('a \<Rightarrow> 'a \<Rightarrow> bool) \<Rightarrow> 'a list \<Rightarrow> 'a \<Rightarrow> 'a list" where
  "insertion_step cmp sorted_part v =
     (case sorted_part of
        [] \<Rightarrow> [v]
      | first # _ \<Rightarrow>
          if cmp v first then v # sorted_part
          else rev (linear_insert cmp v (rev sorted_part)))"

definition std_sort ::
  "Environment \<Rightarrow> (QVariant \<Rightarrow> QVariant \<Rightarrow> bool) \<Rightarrow> QVariant list \<Rightarrow> QVariant list" where
  "std_sort env cmp xs =
     (if length xs \<le> 16 then foldl (insertion_step cmp) [] xs
      else sort_long_range env cmp xs)"

subsection \<open>descriptionOf\<close>

text \<open>
  The end of both descriptionOf functions: the description is trimmed, and one
  that starts with the marker loses it and sets \<open>excluded\<close> unless noExclude
  is set.
\<close>

definition check_excluded :: "bool \<Rightarrow> string \<Rightarrow> string \<times> bool" where
  "check_excluded noExclude description0 =
     (let description = trimmed description0 in
      if startsWith description ''@exclude'' then (mid description 8, \<not> noExclude)
      else (description, False))"

text \<open>A leading or trailing comment counts when it starts with * or /.\<close>

definition documentation_comment :: "string \<Rightarrow> string" where
  "documentation_comment comment =
     (if startsWith comment ''*'' \<or> startsWith comment ''/''
      then remove_line_start_space True (mid comment 1)
      else [])"

text \<open>
  descriptionOf for every descriptor but a file's: the argument is the
  SourceLocation that GetSourceLocation fills in, the result the description
  and \<open>excluded\<close>.
\<close>

definition descriptionOf :: "bool \<Rightarrow> SourceLocation \<Rightarrow> string \<times> bool" where
  "descriptionOf noExclude sourceLocation =
     check_excluded noExclude
       (documentation_comment (leading_comments sourceLocation)
        @ documentation_comment (trailing_comments sourceLocation))"

text \<open>
  The QTextStream over the opened file is the text not yet read. readLine gives
  the text up to the next line feed and leaves what follows it; the carriage
  return of a \<open>\\r\\n\<close> ending stays on the line here and goes with the
  \<open>trimmed\<close> the code applies to every line it reads. At the end of the text
  readLine gives an empty line and atEnd holds.
\<close>

definition readLine :: "string \<Rightarrow> string \<times> string" where
  "readLine stream =
     (takeWhile (\<lambda>c. c \<noteq> CHR 0x0A) stream, drop 1 (dropWhile (\<lambda>c. c \<noteq> CHR 0x0A) stream))"

lemma readLine_shorter: "stream \<noteq> [] \<Longrightarrow> length (snd (readLine stream)) < length stream"
proof -
  assume nonempty: "stream \<noteq> []"
  let ?rest = "dropWhile (\<lambda>c. c \<noteq> CHR 0x0A) stream"
  have le: "length ?rest \<le> length stream"
    by (rule length_dropWhile_le)
  have eq: "length (drop 1 ?rest) = length ?rest - 1"
    by (rule length_drop)
  from nonempty have pos: "0 < length stream"
    by simp
  from le eq pos have "length (drop 1 ?rest) < length stream"
    by linarith
  then show ?thesis
    by (simp only: readLine_def snd_conv)
qed

text \<open>
  The loop over a run of /// lines:
  \<open>while (!stream.atEnd() && line.startsWith("///"))\<close>.
\<close>

function slash_loop :: "string \<Rightarrow> string \<Rightarrow> string \<Rightarrow> string" where
  "slash_loop line stream description =
     (if stream \<noteq> [] \<and> startsWith line ''///''
      then slash_loop (trimmed (fst (readLine stream))) (snd (readLine stream))
             (description @ mid line (if startsWith line ''/// '' then 4 else 3) @ [CHR 0x0A])
      else description)"
  by pat_completeness auto
termination
  by (relation "measure (\<lambda>(line, stream, description). length stream)")
     (auto simp: readLine_shorter)

declare slash_loop.simps [simp del]

text \<open>
  The loop over the lines of a /** block, \<open>while ((end = line.indexOf("*/")) == -1)\<close>.
  It does not ask atEnd: in a text without the closing token it reads empty
  lines for ever, which is the result \<open>None\<close>. It returns the line that holds
  the closing token and the description so far.
\<close>

partial_function (option) block_loop :: "string \<Rightarrow> string \<Rightarrow> string \<Rightarrow> (string \<times> string) option" where
  "block_loop line stream description =
     (if indexOf line ''*/'' = -1
      then block_loop (trimmed (fst (readLine stream))) (snd (readLine stream))
             (description
              @ mid line ((if startsWith line ''*'' then 1 else 0) + (if startsWith line ''* '' then 1 else 0))
              @ [CHR 0x0A])
      else Some (line, description))"

declare block_loop.simps [code]

text \<open>
  The loop \<open>while (!stream.atEnd())\<close> of descriptionOf for a file: blank
  lines are passed over, and the first line that is not blank ends the loop.
\<close>

function scan :: "string \<Rightarrow> string \<Rightarrow> string option" where
  "scan stream description =
     (if stream = [] then Some description
      else
        (let line = trimmed (fst (readLine stream));
             stream' = snd (readLine stream)
         in
           if line = [] then scan stream' description
           else if startsWith line ''///'' then
             (let description' = slash_loop line stream' description
              in Some (left description' (int (length description') - 1)))
           else if startsWith line ''/**'' \<and> \<not> startsWith line ''/***/'' then
             (case block_loop (mid line 2) stream' description of
                None \<Rightarrow> None
              | Some (line', description') \<Rightarrow>
                  (let endpos = indexOf line' ''*/'';
                       start = (if startsWith line' ''*'' \<and> \<not> startsWith line' ''*/'' then 1 else 0)
                               + (if startsWith line' ''* '' then 1 else 0)
                   in Some (description' @ mid_n line' start (endpos - int start))))
           else Some description))"
  by pat_completeness auto
termination
  by (relation "measure (\<lambda>(stream, description). length stream)")
     (auto simp: readLine_shorter)

declare scan.simps [simp del]

text \<open>
  descriptionOf for a file. \<open>error\<close> and \<open>excluded\<close> are the two out
  parameters: a failed open writes \<open>error\<close> and returns before \<open>excluded\<close>
  is touched. The result is the description with both; \<open>None\<close> when the
  scan of a /** block never ends.
\<close>

definition descriptionOf_file ::
  "Environment \<Rightarrow> bool \<Rightarrow> FileDescriptor \<Rightarrow> string \<Rightarrow> bool \<Rightarrow> (string \<times> string \<times> bool) option" where
  "descriptionOf_file env noExclude fileDescriptor error excluded =
     (case open_file env (file_name fileDescriptor) of
        Inl errorString \<Rightarrow>
          Some ([], QString_arg (QString_arg ''%1: %2'' (file_name fileDescriptor)) errorString, excluded)
      | Inr text \<Rightarrow>
          (case scan text [] of
             None \<Rightarrow> None
           | Some description \<Rightarrow>
               Some (fst (check_excluded noExclude description), error,
                     snd (check_excluded noExclude description))))"

subsection \<open>Fields and extensions\<close>

fun scalarTypeName :: "Type \<Rightarrow> string" where
  "scalarTypeName TYPE_BOOL = ''bool''"
| "scalarTypeName TYPE_BYTES = ''bytes''"
| "scalarTypeName TYPE_DOUBLE = ''double''"
| "scalarTypeName TYPE_FIXED32 = ''fixed32''"
| "scalarTypeName TYPE_FIXED64 = ''fixed64''"
| "scalarTypeName TYPE_FLOAT = ''float''"
| "scalarTypeName TYPE_INT32 = ''int32''"
| "scalarTypeName TYPE_INT64 = ''int64''"
| "scalarTypeName TYPE_SFIXED32 = ''sfixed32''"
| "scalarTypeName TYPE_SFIXED64 = ''sfixed64''"
| "scalarTypeName TYPE_SINT32 = ''sint32''"
| "scalarTypeName TYPE_SINT64 = ''sint64''"
| "scalarTypeName TYPE_STRING = ''string''"
| "scalarTypeName TYPE_UINT32 = ''uint32''"
| "scalarTypeName TYPE_UINT64 = ''uint64''"
| "scalarTypeName _ = ''<unknown>''"

fun labelName :: "Label \<Rightarrow> string" where
  "labelName LABEL_OPTIONAL = ''optional''"
| "labelName LABEL_REPEATED = ''repeated''"
| "labelName LABEL_REQUIRED = ''required''"

text \<open>
  defaultValue. The string default is the std::string the library holds, zero
  bytes included; for a bytes field the code hands its c_str() to QByteArray.
\<close>

definition defaultValue :: "Environment \<Rightarrow> FieldDescriptor \<Rightarrow> string" where
  "defaultValue env fieldDescriptor =
     (if has_default_value fieldDescriptor then
        (case cpp_type fieldDescriptor of
           CPPTYPE_STRING \<Rightarrow>
             (if type fieldDescriptor = TYPE_STRING
              then QString_arg ''\"%1\"'' (default_value_string fieldDescriptor)
              else if type fieldDescriptor = TYPE_BYTES
              then QString_arg ''0x%1'' (toHex (c_str (default_value_string fieldDescriptor)))
              else ''Unknown'')
         | CPPTYPE_BOOL \<Rightarrow> (if default_value_bool fieldDescriptor then ''true'' else ''false'')
         | CPPTYPE_FLOAT \<Rightarrow>
             number_double env (float_to_double env (default_value_float fieldDescriptor))
         | CPPTYPE_DOUBLE \<Rightarrow> number_double env (default_value_double fieldDescriptor)
         | CPPTYPE_INT32 \<Rightarrow> QString_number (sint (default_value_int32 fieldDescriptor))
         | CPPTYPE_INT64 \<Rightarrow> QString_number (sint (default_value_int64 fieldDescriptor))
         | CPPTYPE_UINT32 \<Rightarrow> QString_number (uint (default_value_uint32 fieldDescriptor))
         | CPPTYPE_UINT64 \<Rightarrow> QString_number (uint (default_value_uint64 fieldDescriptor))
         | CPPTYPE_ENUM \<Rightarrow> default_value_enum fieldDescriptor
         | _ \<Rightarrow> ''Unknown'')
      else [])"

text \<open>
  The three type entries of a field or an extension; \<open>prefix\<close> is
  \<open>field\<close> or \<open>extension\<close>.
\<close>

definition type_information :: "string \<Rightarrow> FieldDescriptor \<Rightarrow> (string \<times> QVariant) list" where
  "type_information prefix fieldDescriptor =
     (if type fieldDescriptor = TYPE_MESSAGE \<or> type fieldDescriptor = TYPE_GROUP then
        [(prefix @ ''_type'', VString (name (message_type fieldDescriptor))),
         (prefix @ ''_long_type'', VString (longName (Some (message_type fieldDescriptor)))),
         (prefix @ ''_full_type'', VString (full_name (message_type fieldDescriptor)))]
      else if type fieldDescriptor = TYPE_ENUM then
        [(prefix @ ''_type'', VString (name (enum_type fieldDescriptor))),
         (prefix @ ''_long_type'', VString (longName (Some (enum_type fieldDescriptor)))),
         (prefix @ ''_full_type'', VString (full_name (enum_type fieldDescriptor)))]
      else
        [(prefix @ ''_type'', VString (scalarTypeName (type fieldDescriptor))),
         (prefix @ ''_long_type'', VString (scalarTypeName (type fieldDescriptor))),
         (prefix @ ''_full_type'', VString (scalarTypeName (type fieldDescriptor)))])"

definition addField :: "Environment \<Rightarrow> bool \<Rightarrow> FieldDescriptor \<Rightarrow> QVariant list \<Rightarrow> QVariant list" where
  "addField env noExclude fieldDescriptor fields' =
     (let (description, excluded) = descriptionOf noExclude (field_location fieldDescriptor) in
      if excluded then fields'
      else fields' @
        [VHash
          ([(''field_name'', VString (field_name fieldDescriptor)),
            (''field_description'', VString description),
            (''field_label'', VString (labelName (label fieldDescriptor))),
            (''field_default_value'', VString (defaultValue env fieldDescriptor))]
           @ type_information ''field'' fieldDescriptor)])"

text \<open>The scope and containing-type entries of an extension, each set for a pointer that is not null.\<close>

definition scope_information :: "string \<Rightarrow> TypeRef option \<Rightarrow> (string \<times> QVariant) list" where
  "scope_information prefix descriptor =
     (case descriptor of
        None \<Rightarrow> []
      | Some d \<Rightarrow>
          [(prefix @ ''_type'', VString (name d)),
           (prefix @ ''_long_type'', VString (longName (Some d))),
           (prefix @ ''_full_type'', VString (full_name d))])"

definition addExtension :: "Environment \<Rightarrow> bool \<Rightarrow> FieldDescriptor \<Rightarrow> QVariant list \<Rightarrow> QVariant list" where
  "addExtension env noExclude fieldDescriptor extensions =
     (let (description, excluded) = descriptionOf noExclude (field_location fieldDescriptor) in
      if excluded then extensions
      else extensions @
        [VHash
          ([(''extension_name'', VString (field_name fieldDescriptor)),
            (''extension_full_name'', VString (field_full_name fieldDescriptor)),
            (''extension_long_name'', VString (longName_field fieldDescriptor)),
            (''extension_description'', VString description),
            (''extension_label'', VString (labelName (label fieldDescriptor))),
            (''extension_number'', VString (QString_number (number fieldDescriptor))),
            (''extension_default_value'', VString (defaultValue env fieldDescriptor))]
           @ (if is_extension fieldDescriptor
              then scope_information ''extension_scope'' (extension_scope fieldDescriptor)
                   @ scope_information ''extension_containing'' (field_containing_type fieldDescriptor)
              else [])
           @ type_information ''extension'' fieldDescriptor)])"

subsection \<open>Enums, messages and services\<close>

text \<open>One round of the loop over the values of an enum.\<close>

definition addEnumValue :: "bool \<Rightarrow> EnumValueDescriptor \<Rightarrow> QVariant list \<Rightarrow> QVariant list" where
  "addEnumValue noExclude valueDescriptor values =
     (let (description, excluded) = descriptionOf noExclude (value_location valueDescriptor) in
      if excluded then values
      else values @
        [VHash
          [(''value_name'', VString (value_name valueDescriptor)),
           (''value_number'', VInt (value_number valueDescriptor)),
           (''value_description'', VString description)]])"

definition addEnum :: "bool \<Rightarrow> EnumDescriptor \<Rightarrow> QVariant list \<Rightarrow> QVariant list" where
  "addEnum noExclude enumDescriptor enums =
     (let (description, excluded) = descriptionOf noExclude (enum_location enumDescriptor) in
      if excluded then enums
      else enums @
        [VHash
          [(''enum_name'', VString (name (enum_ref enumDescriptor))),
           (''enum_long_name'', VString (longName (Some (enum_ref enumDescriptor)))),
           (''enum_full_name'', VString (full_name (enum_ref enumDescriptor))),
           (''enum_description'', VString description),
           (''enum_values'', VList (fold (addEnumValue noExclude) (enum_values enumDescriptor) []))]])"

text \<open>
  addMessages appends to the two lists of the file; they are passed and
  returned as a pair. The loops over the fields, the extensions, the nested
  types and the enums are folds in the order of declaration.
\<close>

fun addMessages :: "Environment \<Rightarrow> bool \<Rightarrow> Descriptor \<Rightarrow> QVariant list \<times> QVariant list \<Rightarrow> QVariant list \<times> QVariant list" where
  "addMessages env noExclude (Descriptor ref location fs xs nested es) messages_enums =
     (let (description, excluded) = descriptionOf noExclude location in
      if excluded then messages_enums
      else
        (let fields' = fold (addField env noExclude) fs [];
             extensions = fold (addExtension env noExclude) xs [];
             message =
               VHash
                 [(''message_name'', VString (name ref)),
                  (''message_long_name'', VString (longName (Some ref))),
                  (''message_full_name'', VString (full_name ref)),
                  (''message_description'', VString description),
                  (''message_fields'', VList fields'),
                  (''message_has_fields'', VBool (fields' \<noteq> [])),
                  (''message_has_extensions'', VBool (extensions \<noteq> [])),
                  (''message_extensions'', VList extensions)];
             messages_enums' =
               fold (addMessages env noExclude) nested
                 (fst messages_enums @ [message], snd messages_enums)
         in (fst messages_enums', fold (addEnum noExclude) es (snd messages_enums'))))"

text \<open>One round of the loop over the methods of a service.\<close>

definition addMethod :: "bool \<Rightarrow> MethodDescriptor \<Rightarrow> QVariant list \<Rightarrow> QVariant list" where
  "addMethod noExclude methodDescriptor methods =
     (let (description, excluded) = descriptionOf noExclude (method_location methodDescriptor) in
      if excluded then methods
      else methods @
        [VHash
          [(''method_name'', VString (method_name methodDescriptor)),
           (''method_description'', VString description),
           (''method_request_type'', VString (name (input_type methodDescriptor))),
           (''method_request_full_type'', VString (full_name (input_type methodDescriptor))),
           (''method_request_long_type'', VString (longName (Some (input_type methodDescriptor)))),
           (''method_response_type'', VString (name (output_type methodDescriptor))),
           (''method_response_full_type'', VString (full_name (output_type methodDescriptor))),
           (''method_response_long_type'', VString (longName (Some (output_type methodDescriptor))))]])"

definition addService :: "bool \<Rightarrow> ServiceDescriptor \<Rightarrow> QVariant list \<Rightarrow> QVariant list" where
  "addService noExclude serviceDescriptor services =
     (let (description, excluded) = descriptionOf noExclude (service_location serviceDescriptor) in
      if excluded then services
      else services @
        [VHash
          [(''service_name'', VString (service_name serviceDescriptor)),
           (''service_full_name'', VString (service_full_name serviceDescriptor)),
           (''service_description'', VString description),
           (''service_methods'', VList (fold (addMethod noExclude) (service_methods serviceDescriptor) []))]])"

subsection \<open>addFile\<close>

text \<open>
  The four lists of a file, each sorted with longNameLessThan before it is
  stored: the messages with the nested ones, the enums of the messages followed
  by those of the file, the services, and the extensions of the file.
\<close>

definition file_messages :: "Environment \<Rightarrow> bool \<Rightarrow> FileDescriptor \<Rightarrow> QVariant list" where
  "file_messages env noExclude fileDescriptor =
     std_sort env longNameLessThan
       (fst (fold (addMessages env noExclude) (file_message_types fileDescriptor) ([], [])))"

definition file_enums :: "Environment \<Rightarrow> bool \<Rightarrow> FileDescriptor \<Rightarrow> QVariant list" where
  "file_enums env noExclude fileDescriptor =
     std_sort env longNameLessThan
       (fold (addEnum noExclude) (file_enum_types fileDescriptor)
          (snd (fold (addMessages env noExclude) (file_message_types fileDescriptor) ([], []))))"

definition file_services_list :: "Environment \<Rightarrow> bool \<Rightarrow> FileDescriptor \<Rightarrow> QVariant list" where
  "file_services_list env noExclude fileDescriptor =
     std_sort env longNameLessThan (fold (addService noExclude) (file_services fileDescriptor) [])"

definition file_extensions_list :: "Environment \<Rightarrow> bool \<Rightarrow> FileDescriptor \<Rightarrow> QVariant list" where
  "file_extensions_list env noExclude fileDescriptor =
     std_sort env longNameLessThan (fold (addExtension env noExclude) (file_extensions fileDescriptor) [])"

text \<open>
  addFile, with \<open>files\<close> and \<open>error\<close> passed and returned. After a failed
  open it goes on with an empty description and appends the file; the caller
  looks at \<open>error\<close> afterwards.
\<close>

definition addFile ::
  "Environment \<Rightarrow> bool \<Rightarrow> FileDescriptor \<Rightarrow> QVariant list \<Rightarrow> string \<Rightarrow> (QVariant list \<times> string) option" where
  "addFile env noExclude fileDescriptor files error =
     (case descriptionOf_file env noExclude fileDescriptor error False of
        None \<Rightarrow> None
      | Some (description, error', excluded) \<Rightarrow>
          if excluded then Some (files, error')
          else
            Some
              (files @
                 [VHash
                   [(''file_name'', VString (fileName_of (file_name fileDescriptor))),
                    (''file_description'', VString description),
                    (''file_package'', VString (package fileDescriptor)),
                    (''file_messages'', VList (file_messages env noExclude fileDescriptor)),
                    (''file_enums'', VList (file_enums env noExclude fileDescriptor)),
                    (''file_has_services'', VBool (file_services_list env noExclude fileDescriptor \<noteq> [])),
                    (''file_services'', VList (file_services_list env noExclude fileDescriptor)),
                    (''file_has_extensions'', VBool (file_extensions_list env noExclude fileDescriptor \<noteq> [])),
                    (''file_extensions'', VList (file_extensions_list env noExclude fileDescriptor))]],
               error'))"

subsection \<open>The generator context, parseParameter and render\<close>

text \<open>
  The class DocGeneratorContext; the code keeps one static instance of it.
  \<open>template\<close> is the member \<open>template_\<close>.
\<close>

record DocGeneratorContext =
  template :: string
  outputFileName :: string
  noExclude :: bool
  files :: "QVariant list"

text \<open>The static instance before the first call: empty strings, false, no files.\<close>

definition initial_context :: DocGeneratorContext where
  "initial_context = \<lparr>template = [], outputFileName = [], noExclude = False, files = []\<rparr>"

text \<open>
  What a call of Generate works on: the static context, and the host's
  GeneratorContext as the list of the files opened through it with the text
  printed to each. \<open>render_log\<close> is not in the code: it records each call
  of render with the list of files it found, to count the calls.
\<close>

record State =
  generatorContext :: DocGeneratorContext
  written :: "(string \<times> string) list"
  render_log :: "QVariant list list"

definition initial_state :: State where
  "initial_state = \<lparr>generatorContext = initial_context, written = [], render_log = []\<rparr>"

definition usage :: "Environment \<Rightarrow> string" where
  "usage env =
     QString_arg ''Usage: --doc_out=%1|<TEMPLATE_FILENAME>,<OUT_FILENAME>[,no-exclude]:<OUT_DIR>''
       (QStringList_join ''|'' (templates env))"

text \<open>readTemplate returns the template and the error string, written when the open fails.\<close>

definition readTemplate :: "Environment \<Rightarrow> string \<Rightarrow> string \<Rightarrow> string \<times> string" where
  "readTemplate env name' error =
     (let builtInFileName = QString_arg '':/templates/%1.mustache'' name';
          fileName = (if name' \<in> set (templates env) then builtInFileName else name')
      in case open_file env fileName of
           Inl errorString \<Rightarrow> ([], QString_arg (QString_arg ''%1: %2'' fileName) errorString)
         | Inr text \<Rightarrow> (text, error))"

text \<open>parseParameter returns its result, the static context and the error string.\<close>

definition parseParameter ::
  "Environment \<Rightarrow> string \<Rightarrow> DocGeneratorContext \<Rightarrow> string \<Rightarrow> bool \<times> DocGeneratorContext \<times> string" where
  "parseParameter env parameter ctx error =
     (let tokens = QString_split (CHR '','') parameter in
      if length tokens \<noteq> 2 \<and> length tokens \<noteq> 3 then (False, ctx, usage env)
      else if length tokens = 3 \<and> tokens ! 2 \<noteq> ''no-exclude'' then (False, ctx, usage env)
      else
        (let template_error =
               (if tokens ! 0 \<noteq> ''json'' then readTemplate env (tokens ! 0) error
                else (template ctx, error))
         in (True,
             ctx\<lparr>template := fst template_error,
                      outputFileName := tokens ! 1,
                      noExclude := (length tokens = 3 \<and> tokens ! 2 = ''no-exclude'')\<rparr>,
             snd template_error)))"

definition formattedError :: "string \<Rightarrow> Rendering \<Rightarrow> string" where
  "formattedError template' renderer =
     (let location =
            (if renderer_errorPartial renderer \<noteq> []
             then template' @ '' in partial '' @ renderer_errorPartial renderer
             else template')
      in QString_arg
           (QString_arg (QString_arg ''%1:%2: %3'' location) (QString_number (renderer_errorPos renderer)))
           (renderer_error renderer))"

text \<open>render returns its result, the state and the error string.\<close>

definition render :: "Environment \<Rightarrow> State \<Rightarrow> string \<Rightarrow> bool \<times> State \<times> string" where
  "render env st0 error =
     (let ctx = generatorContext st0;
          st = st0\<lparr>render_log := render_log st0 @ [files ctx]\<rparr>
      in
        if template ctx = [] then
          (case fromVariant env (files ctx) of
             None \<Rightarrow> (False, st, ''Failed to create JSON document'')
           | Some result \<Rightarrow>
               (True, st\<lparr>written := written st @ [(outputFileName ctx, result)]\<rparr>, error))
        else
          (case open_file env '':/templates/scalar_value_types.json'' of
             Inl errorString \<Rightarrow>
               (False, st,
                QString_arg (QString_arg ''%1: %2'' '':/templates/scalar_value_types.json'') errorString)
           | Inr text \<Rightarrow>
               (let renderer = mustache env (template ctx) (files ctx) (fromJson env text) in
                if renderer_error renderer \<noteq> []
                then (False, st, formattedError (template ctx) renderer)
                else (True,
                      st\<lparr>written := written st @ [(outputFileName ctx, rendered renderer)]\<rparr>,
                      error))))"

subsection \<open>Generate and the host\<close>

text \<open>
  DocGenerator::Generate. The descriptor pool holds one FileDescriptor for each
  file, so the comparison of the pointers is the comparison of the files.
  front() and back() of an empty vector are undefined; the host passes the
  list that holds \<open>fileDescriptor\<close>, and on the empty list there is no
  result. \<open>None\<close> is also the call that never returns.
\<close>

definition Generate ::
  "Environment \<Rightarrow> FileDescriptor \<Rightarrow> string \<Rightarrow> FileDescriptor list \<Rightarrow> State \<Rightarrow> string
   \<Rightarrow> (bool \<times> State \<times> string) option" where
  "Generate env fileDescriptor parameter parsedFiles st error =
     (if parsedFiles = [] then None
      else
        (let isFirst = (fileDescriptor = hd parsedFiles);
             isLast = (fileDescriptor = last parsedFiles);
             parsed =
               (if isFirst then parseParameter env parameter (generatorContext st) error
                else (True, generatorContext st, error))
         in
           if \<not> fst parsed then Some (False, st\<lparr>generatorContext := fst (snd parsed)\<rparr>, snd (snd parsed))
           else
             (case addFile env (noExclude (fst (snd parsed))) fileDescriptor
                     (files (fst (snd parsed))) (snd (snd parsed)) of
                None \<Rightarrow> None
              | Some (files', error') \<Rightarrow>
                  (let st' = st\<lparr>generatorContext := (fst (snd parsed))\<lparr>files := files'\<rparr>\<rparr> in
                   if error' \<noteq> [] then Some (False, st', error')
                   else if isLast then Some (render env st' error')
                   else Some (True, st', error')))))"

text \<open>
  The host, PluginMain of the protobuf library: it calls Generate for each file
  of the list in turn, each time with an empty error string, and stops at the
  first call that returns false. \<open>run\<close> makes the calls for the files
  \<open>todo\<close> of the list \<open>parsedFiles\<close>, and returns the error string as
  the failing call of Generate left it.
\<close>

fun run ::
  "Environment \<Rightarrow> string \<Rightarrow> FileDescriptor list \<Rightarrow> FileDescriptor list \<Rightarrow> State
   \<Rightarrow> (bool \<times> State \<times> string) option" where
  "run env parameter parsedFiles [] st = Some (True, st, [])"
| "run env parameter parsedFiles (fileDescriptor # todo) st =
     (case Generate env fileDescriptor parameter parsedFiles st [] of
        None \<Rightarrow> None
      | Some (ok, st', error) \<Rightarrow>
          if ok then run env parameter parsedFiles todo st'
          else Some (False, st', error))"

subsection \<open>Auxiliary notions and example inputs\<close>

text \<open>The names of the enclosing types of a type, outermost first, and its own name last.\<close>

fun enclosing_names :: "TypeRef \<Rightarrow> string list" where
  "enclosing_names (TypeRef n f None) = [n]"
| "enclosing_names (TypeRef n f (Some c)) = enclosing_names c @ [n]"

text \<open>An optional int32 field \<open>f\<close> of a top-level message \<open>M\<close>, without comments or default.\<close>

definition example_field :: FieldDescriptor where
  "example_field =
     \<lparr>field_name = ''f'', field_full_name = ''pkg.f'',
      field_location = \<lparr>leading_comments = [], trailing_comments = []\<rparr>,
      is_extension = False, extension_scope = None,
      field_containing_type = Some (TypeRef ''M'' ''pkg.M'' None),
      label = LABEL_OPTIONAL, number = 1, type = TYPE_INT32, cpp_type = CPPTYPE_INT32,
      message_type = TypeRef [] [] None, enum_type = TypeRef [] [] None,
      has_default_value = False, default_value_string = [], default_value_bool = False,
      default_value_float = 0, default_value_double = 0, default_value_int32 = 0,
      default_value_int64 = 0, default_value_uint32 = 0, default_value_uint64 = 0,
      default_value_enum = []\<rparr>"

text \<open>
  An environment in which every file but \<open>missing.proto\<close> opens and is empty,
  and a service and a file without content.
\<close>

definition example_env :: Environment where
  "example_env =
     \<lparr>open_file = (\<lambda>fileName. if fileName = ''missing.proto'' then Inl ''No such file or directory'' else Inr []),
      templates = [''docbook'', ''html'', ''markdown''],
      number_double = (\<lambda>d. ''0''),
      float_to_double = (\<lambda>f. 0),
      fromVariant = (\<lambda>files. Some ''json''),
      fromJson = (\<lambda>text. []),
      mustache = (\<lambda>template' files scalar_value_types.
         \<lparr>rendered = ''text'', renderer_error = [], renderer_errorPos = 0, renderer_errorPartial = []\<rparr>),
      sort_long_range = (\<lambda>cmp xs. xs)\<rparr>"

definition example_service :: "string \<Rightarrow> ServiceDescriptor" where
  "example_service n =
     \<lparr>service_name = n, service_full_name = ''pkg.'' @ n,
      service_location = \<lparr>leading_comments = [], trailing_comments = []\<rparr>,
      service_methods = []\<rparr>"

definition example_file :: "string \<Rightarrow> FileDescriptor" where
  "example_file n =
     \<lparr>file_name = n, package = ''pkg'', file_message_types = [], file_enum_types = [],
      file_services = [], file_extensions = []\<rparr>"

text \<open>A record that has none of the three long-name keys.\<close>

definition no_long_name :: "QVariant \<Rightarrow> bool" where
  "no_long_name v =
     (toString (lookup (toHash v) ''message_long_name'') = []
      \<and> toString (lookup (toHash v) ''enum_long_name'') = []
      \<and> toString (lookup (toHash v) ''extension_long_name'') = [])"

text \<open>
  The long name a record carries under one of the three keys that
  longNameLessThan reads, and the records that carry only one of them.
\<close>

definition long_name_of :: "string \<Rightarrow> QVariant \<Rightarrow> string" where
  "long_name_of key v = toString (lookup (toHash v) key)"

definition message_record :: "QVariant \<Rightarrow> bool" where
  "message_record v = (long_name_of ''enum_long_name'' v = [] \<and> long_name_of ''extension_long_name'' v = [])"

definition enum_record :: "QVariant \<Rightarrow> bool" where
  "enum_record v = (long_name_of ''message_long_name'' v = [] \<and> long_name_of ''extension_long_name'' v = [])"

definition extension_record :: "QVariant \<Rightarrow> bool" where
  "extension_record v = (long_name_of ''message_long_name'' v = [] \<and> long_name_of ''enum_long_name'' v = [])"

text \<open>The records that addFile appends for one file: one, or none when the file is excluded.\<close>

definition records_of :: "Environment \<Rightarrow> bool \<Rightarrow> FileDescriptor \<Rightarrow> QVariant list" where
  "records_of env ne fileDescriptor =
     (case addFile env ne fileDescriptor [] [] of
        Some (records, error) \<Rightarrow> records
      | None \<Rightarrow> [])"

text \<open>
  The records of all the files of a list, in the order of the list; and a file
  that opens and whose scan for the description comes to an end.
\<close>

definition all_records :: "Environment \<Rightarrow> bool \<Rightarrow> FileDescriptor list \<Rightarrow> QVariant list" where
  "all_records env ne parsedFiles = concat (map (records_of env ne) parsedFiles)"

definition readable :: "Environment \<Rightarrow> FileDescriptor \<Rightarrow> bool" where
  "readable env fileDescriptor =
     (case open_file env (file_name fileDescriptor) of
        Inl errorString \<Rightarrow> False
      | Inr text \<Rightarrow> scan text [] \<noteq> None)"

text \<open>
  The text of a /// line, as the loop over such lines takes it; a line that the
  scan takes for a /// comment; and the text of a file made of the given lines,
  each ended by a line feed.
\<close>

definition slash_text :: "string \<Rightarrow> string" where
  "slash_text line = mid (trimmed line) (if startsWith (trimmed line) ''/// '' then 4 else 3)"

definition is_slash_line :: "string \<Rightarrow> bool" where
  "is_slash_line line = (CHR 0x0A \<notin> set line \<and> startsWith (trimmed line) ''///'')"

definition terminated_lines :: "string list \<Rightarrow> string" where
  "terminated_lines ls = concat (map (\<lambda>l. l @ [CHR 0x0A]) ls)"

text \<open>
  Three files with text: \<open>doc.proto\<close> starts with three /// lines and a
  blank line, \<open>plain.proto\<close> has no comment, \<open>comments.proto\<close> consists
  of two /// lines.
\<close>

definition documented_env :: Environment where
  "documented_env =
     example_env\<lparr>open_file :=
       (\<lambda>fileName.
          if fileName = ''doc.proto''
          then Inr (''/// a'' @ [CHR 0x0A] @ ''/// b'' @ [CHR 0x0A] @ ''/// c'' @ [CHR 0x0A]
                    @ [CHR 0x0A] @ ''message M {}'' @ [CHR 0x0A])
          else if fileName = ''plain.proto''
          then Inr ([CHR 0x0A] @ ''message M {}'' @ [CHR 0x0A])
          else if fileName = ''comments.proto''
          then Inr (''/// a'' @ [CHR 0x0A] @ ''/// b'' @ [CHR 0x0A])
          else Inl ''No such file or directory'')\<rparr>"

text \<open>A comment that excludes its element, and an environment whose files start with one.\<close>

definition excluded_location :: SourceLocation where
  "excluded_location = \<lparr>leading_comments = ''/ @exclude internal'' @ [CHR 0x0A], trailing_comments = []\<rparr>"

definition excluded_env :: Environment where
  "excluded_env =
     example_env\<lparr>open_file :=
       (\<lambda>fileName. Inr (''/// @exclude'' @ [CHR 0x0A] @ ''/// internal file'' @ [CHR 0x0A] @ [CHR 0x0A]))\<rparr>"

text \<open>A state after parseParameter for \<open>json\<close>, with one file accumulated.\<close>

definition example_json_state :: State where
  "example_json_state =
     \<lparr>generatorContext = \<lparr>template = [], outputFileName = ''out.json'', noExclude = False,
                           files = [VHash [(''file_name'', VString ''a.proto'')]]\<rparr>,
      written = [], render_log = []\<rparr>"

text \<open>
  An environment in which no file opens, and one in which the built-in template
  \<open>html\<close> has a text and every other file is empty.
\<close>

definition unreadable_env :: Environment where
  "unreadable_env = example_env\<lparr>open_file := (\<lambda>fileName. Inl ''No such file or directory'')\<rparr>"

definition template_env :: Environment where
  "template_env =
     example_env\<lparr>open_file :=
       (\<lambda>fileName. if fileName = '':/templates/html.mustache'' then Inr ''{{#files}}{{file_name}}{{/files}}''
                   else Inr [])\<rparr>"

section \<open>Properties\<close>

subsection \<open>Long names\<close>

lemma join_snoc: "xs \<noteq> [] \<Longrightarrow> QStringList_join sep (xs @ [y]) = QStringList_join sep xs @ sep @ y"
  by (induction sep xs rule: QStringList_join.induct) auto

lemma enclosing_names_nonempty: "enclosing_names t \<noteq> []"
  by (induction t rule: enclosing_names.induct) auto

lemma longName_join: "longName (Some t) = QStringList_join ''.'' (enclosing_names t)"
  by (induction t rule: enclosing_names.induct) (simp_all add: join_snoc enclosing_names_nonempty)

text \<open>
  C4, at an extension \<open>ext\<close> declared at file level. It has no extension
  scope, so it is a top-level element, whose long name is its bare name: the
  comment of longName says the name preceded by the names of its enclosing
  types, and the template returns the bare name when there is no enclosing
  type. The specialisation for fields has no such case and puts the dot in
  front of the name: the long name is \<open>.ext\<close>, not \<open>ext\<close>.
\<close>

theorem longName_file_level_extension:
  "longName_field (example_field\<lparr>field_name := ''ext'', is_extension := True, extension_scope := None\<rparr>) = ''.ext''
   \<and> longName_field (example_field\<lparr>field_name := ''ext'', is_extension := True, extension_scope := None\<rparr>)
       \<noteq> field_name (example_field\<lparr>field_name := ''ext'', is_extension := True, extension_scope := None\<rparr>)"
  by (simp add: longName_field_def example_field_def)

text \<open>
  For a message or an enum, longName is recursive: the null pointer gives the
  empty string, a top-level type its bare name, a nested type the long name of
  the enclosing type, a dot and its name; so the long name is the names of the
  enclosing types and its own, joined with dots. For a field the recursion
  starts at the extension scope when the field is an extension and at the
  containing type otherwise: an extension declared inside \<open>a\<close> that extends
  \<open>b\<close> is qualified under \<open>a\<close>, a field of \<open>b\<close> under \<open>b\<close>.
\<close>

lemma longName_recursive:
  "longName None = []
   \<and> longName (Some (TypeRef n f None)) = n
   \<and> longName (Some (TypeRef n f (Some c))) = longName (Some c) @ ''.'' @ n
   \<and> longName (Some t) = QStringList_join ''.'' (enclosing_names t)
   \<and> longName_field (fd\<lparr>is_extension := True, extension_scope := Some a, field_containing_type := Some b\<rparr>)
       = longName (Some a) @ ''.'' @ field_name fd
   \<and> longName_field (fd\<lparr>is_extension := False, extension_scope := a', field_containing_type := Some b\<rparr>)
       = longName (Some b) @ ''.'' @ field_name fd"
proof -
  have chain: "longName (Some t) = QStringList_join ''.'' (enclosing_names t)"
    by (rule longName_join)
  have scoped: "longName_field (fd\<lparr>is_extension := True, extension_scope := Some a, field_containing_type := Some b\<rparr>)
       = longName (Some a) @ ''.'' @ field_name fd"
    by (simp add: longName_field_def)
  have contained: "longName_field (fd\<lparr>is_extension := False, extension_scope := a', field_containing_type := Some b\<rparr>)
       = longName (Some b) @ ''.'' @ field_name fd"
    by (simp add: longName_field_def)
  from chain scoped contained show ?thesis
    by simp
qed

lemma longName_examples:
  "longName (Some (TypeRef ''Baz'' ''pkg.Foo.Bar.Baz''
       (Some (TypeRef ''Bar'' ''pkg.Foo.Bar'' (Some (TypeRef ''Foo'' ''pkg.Foo'' None)))))) = ''Foo.Bar.Baz''
   \<and> longName_field (example_field\<lparr>is_extension := True,
         extension_scope := Some (TypeRef ''A'' ''pkg.A'' None),
         field_containing_type := Some (TypeRef ''B'' ''pkg.B'' None)\<rparr>) = ''A.f''"
  by (simp add: example_field_def longName_field_def)

subsection \<open>The sorted lists of a file\<close>

lemma longNameLessThan_no_long_name:
  "no_long_name v1 \<Longrightarrow> no_long_name v2 \<Longrightarrow> \<not> longNameLessThan v1 v2"
  by (simp add: longNameLessThan_def no_long_name_def)

lemma linear_insert_never_less: "(\<And>b. b \<in> set ps \<Longrightarrow> \<not> cmp v b) \<Longrightarrow> linear_insert cmp v ps = v # ps"
  by (cases ps) auto

lemma insertion_step_never_less:
  assumes "\<And>b. b \<in> set ys \<Longrightarrow> \<not> cmp v b"
  shows "insertion_step cmp ys v = ys @ [v]"
proof (cases ys)
  case Nil
  then show ?thesis by (simp add: insertion_step_def)
next
  case (Cons first rest)
  have "linear_insert cmp v (rev ys) = v # rev ys"
    by (rule linear_insert_never_less) (simp add: assms)
  then have "rev (linear_insert cmp v (rev ys)) = ys @ [v]"
    by simp
  moreover have "\<not> cmp v first"
    using assms Cons by simp
  ultimately show ?thesis
    using Cons by (simp add: insertion_step_def)
qed

lemma foldl_insertion_never_less:
  "(\<And>a b. a \<in> set xs \<Longrightarrow> b \<in> set (ys @ xs) \<Longrightarrow> \<not> cmp a b) \<Longrightarrow> foldl (insertion_step cmp) ys xs = ys @ xs"
proof (induction xs arbitrary: ys)
  case Nil
  then show ?case by simp
next
  case (Cons x xs)
  have step: "insertion_step cmp ys x = ys @ [x]"
    by (rule insertion_step_never_less) (simp add: Cons.prems)
  have "foldl (insertion_step cmp) (ys @ [x]) xs = (ys @ [x]) @ xs"
    by (rule Cons.IH) (simp add: Cons.prems)
  with step show ?case by simp
qed

lemma std_sort_never_less:
  "length xs \<le> 16 \<Longrightarrow> (\<And>a b. a \<in> set xs \<Longrightarrow> b \<in> set xs \<Longrightarrow> \<not> cmp a b) \<Longrightarrow> std_sort env cmp xs = xs"
  unfolding std_sort_def using foldl_insertion_never_less [of xs "[]" cmp] by simp

lemma addService_no_long_name:
  "list_all no_long_name services \<Longrightarrow> list_all no_long_name (addService ne s services)"
  by (simp add: addService_def no_long_name_def toHash_def lookup_def toString_def split: prod.splits)

lemma fold_addService_no_long_name:
  "list_all no_long_name services \<Longrightarrow> list_all no_long_name (fold (addService ne) ss services)"
  by (induction ss arbitrary: services) (simp_all add: addService_no_long_name)

lemma addService_length: "length (addService ne s services) \<le> Suc (length services)"
  by (cases "descriptionOf ne (service_location s)") (simp add: addService_def)

lemma fold_addService_length:
  "length (fold (addService ne) ss services) \<le> length ss + length services"
proof (induction ss arbitrary: services)
  case Nil
  show ?case by simp
next
  case (Cons s ss)
  have "length (fold (addService ne) ss (addService ne s services))
      \<le> length ss + length (addService ne s services)"
    by (rule Cons.IH)
  also have "\<dots> \<le> length ss + Suc (length services)"
    using addService_length [of ne s services] by simp
  finally show ?case by simp
qed

text \<open>
  Up to sixteen services, where std::sort is its insertion sort, the list of
  services is left in the order of declaration.
\<close>

lemma services_unsorted:
  assumes "length (file_services fd) \<le> 16"
  shows "file_services_list env ne fd = fold (addService ne) (file_services fd) []"
proof -
  let ?services = "fold (addService ne) (file_services fd) []"
  have all: "list_all no_long_name ?services"
    by (rule fold_addService_no_long_name) simp
  have short: "length ?services \<le> 16"
    using fold_addService_length [of ne "file_services fd" "[]"] assms by simp
  have "std_sort env longNameLessThan ?services = ?services"
  proof (rule std_sort_never_less [OF short])
    fix a b
    assume "a \<in> set ?services" and "b \<in> set ?services"
    with all have "no_long_name a" and "no_long_name b"
      by (simp_all add: list_all_iff)
    then show "\<not> longNameLessThan a b"
      by (rule longNameLessThan_no_long_name)
  qed
  then show ?thesis
    by (simp add: file_services_list_def)
qed

text \<open>
  C1, at a file that declares the services \<open>B\<close> and \<open>A\<close> in this order.
  addFile sorts the list of services with longNameLessThan, which reads three
  long-name keys; a service record has none of them, so no service is less than
  another and the list stays as declared: \<open>pkg.B\<close> before \<open>pkg.A\<close>.
\<close>

theorem services_keep_declaration_order:
  "map_option (\<lambda>(files, error). map (\<lambda>file. map (\<lambda>service. toString (lookup (toHash service) ''service_full_name''))
        (toList (lookup (toHash file) ''file_services''))) files)
     (addFile example_env False ((example_file ''a.proto'')\<lparr>file_services := [example_service ''B'', example_service ''A'']\<rparr>) [] [])
   = Some [[''pkg.B'', ''pkg.A'']]"
  by (simp add: addFile_def descriptionOf_file_def example_env_def example_file_def example_service_def
      scan.simps check_excluded_def trimmed_def startsWith_def services_unsorted addService_def
      descriptionOf_def documentation_comment_def toList_def lookup_def toHash_def toString_def)

text \<open>
  The other three lists. Every record of the list of messages carries only the
  key \<open>message_long_name\<close> of the three, so on that list longNameLessThan
  compares the long names of the messages, and the sort puts the list in
  ascending order of them; likewise the enums and the extensions. The sort
  keeps the elements of each list.
\<close>

lemma set_linear_insert: "set (linear_insert cmp v ps) = insert v (set ps)"
  by (induction ps) auto

lemma linear_insert_descending:
  fixes key :: "'a \<Rightarrow> 'k::linorder"
  assumes "\<And>a. a \<in> set ps \<Longrightarrow> cmp v a = (key v < key a)"
    and "sorted_wrt (\<lambda>a b. key b \<le> key a) ps"
  shows "sorted_wrt (\<lambda>a b. key b \<le> key a) (linear_insert cmp v ps)"
  using assms
proof (induction ps)
  case Nil
  then show ?case by simp
next
  case (Cons p ps)
  show ?case
  proof (cases "cmp v p")
    case True
    with Cons.prems(1) have "key v < key p" by simp
    moreover have "sorted_wrt (\<lambda>a b. key b \<le> key a) (linear_insert cmp v ps)"
      using Cons by simp
    ultimately show ?thesis
      using True Cons.prems(2) by (auto simp: set_linear_insert)
  next
    case False
    with Cons.prems(1) have "key p \<le> key v" by (simp add: not_less)
    with False Cons.prems(2) show ?thesis by auto
  qed
qed

lemma set_insertion_step: "set (insertion_step cmp ys v) = insert v (set ys)"
  by (cases ys) (auto simp: insertion_step_def set_linear_insert)

lemma insertion_step_sorted:
  fixes key :: "'a \<Rightarrow> 'k::linorder"
  assumes "\<And>a. a \<in> set ys \<Longrightarrow> cmp v a = (key v < key a)"
    and "sorted (map key ys)"
  shows "sorted (map key (insertion_step cmp ys v))"
proof (cases ys)
  case Nil
  then show ?thesis by (simp add: insertion_step_def)
next
  case (Cons first rest)
  show ?thesis
  proof (cases "cmp v first")
    case True
    with assms(1) Cons have "key v < key first" by simp
    with assms(2) Cons True show ?thesis
      by (auto simp: insertion_step_def)
  next
    case False
    have "sorted_wrt (\<lambda>a b. key b \<le> key a) (rev ys)"
      using assms(2) by (simp add: sorted_wrt_rev sorted_map)
    then have "sorted_wrt (\<lambda>a b. key b \<le> key a) (linear_insert cmp v (rev ys))"
      using assms(1) by (intro linear_insert_descending) simp_all
    then have "sorted (map key (rev (linear_insert cmp v (rev ys))))"
      by (simp add: sorted_wrt_rev sorted_map)
    with False Cons show ?thesis
      by (simp add: insertion_step_def)
  qed
qed

lemma foldl_insertion_sorted:
  fixes key :: "'a \<Rightarrow> 'k::linorder"
  assumes "\<And>a b. a \<in> set (ys @ xs) \<Longrightarrow> b \<in> set (ys @ xs) \<Longrightarrow> cmp a b = (key a < key b)"
    and "sorted (map key ys)"
  shows "sorted (map key (foldl (insertion_step cmp) ys xs))
       \<and> set (foldl (insertion_step cmp) ys xs) = set ys \<union> set xs
       \<and> length (foldl (insertion_step cmp) ys xs) = length ys + length xs"
  using assms
proof (induction xs arbitrary: ys)
  case Nil
  then show ?case by simp
next
  case (Cons x xs)
  have s: "sorted (map key (insertion_step cmp ys x))"
    by (rule insertion_step_sorted) (simp_all add: Cons.prems)
  have l: "length (insertion_step cmp ys x) = Suc (length ys)"
  proof -
    have "length (linear_insert cmp x ps) = Suc (length ps)" for ps
      by (induction ps) auto
    then show ?thesis by (cases ys) (auto simp: insertion_step_def)
  qed
  have "sorted (map key (foldl (insertion_step cmp) (insertion_step cmp ys x) xs))
       \<and> set (foldl (insertion_step cmp) (insertion_step cmp ys x) xs) = set (insertion_step cmp ys x) \<union> set xs
       \<and> length (foldl (insertion_step cmp) (insertion_step cmp ys x) xs) = length (insertion_step cmp ys x) + length xs"
    using s Cons.prems(1) by (intro Cons.IH) (auto simp: set_insertion_step)
  then show ?case
    by (simp add: set_insertion_step l)
qed

lemma std_sort_sorted:
  fixes key :: "QVariant \<Rightarrow> 'k::linorder"
  assumes "\<And>a b. a \<in> set xs \<Longrightarrow> b \<in> set xs \<Longrightarrow> cmp a b = (key a < key b)"
    and "16 < length xs \<Longrightarrow>
           sorted (map key (sort_long_range env cmp xs)) \<and> set (sort_long_range env cmp xs) = set xs"
  shows "sorted (map key (std_sort env cmp xs))" and "set (std_sort env cmp xs) = set xs"
  using foldl_insertion_sorted [of "[]" xs cmp key] assms by (auto simp add: std_sort_def)

lemma less_message_records:
  "message_record a \<Longrightarrow> message_record b \<Longrightarrow>
   longNameLessThan a b = (long_name_of ''message_long_name'' a < long_name_of ''message_long_name'' b)"
  by (simp add: longNameLessThan_def message_record_def long_name_of_def)

lemma less_enum_records:
  "enum_record a \<Longrightarrow> enum_record b \<Longrightarrow>
   longNameLessThan a b = (long_name_of ''enum_long_name'' a < long_name_of ''enum_long_name'' b)"
  by (simp add: longNameLessThan_def enum_record_def long_name_of_def)

lemma less_extension_records:
  "extension_record a \<Longrightarrow> extension_record b \<Longrightarrow>
   longNameLessThan a b = (long_name_of ''extension_long_name'' a < long_name_of ''extension_long_name'' b)"
  by (simp add: longNameLessThan_def extension_record_def long_name_of_def)

lemma addEnum_records: "list_all enum_record acc \<Longrightarrow> list_all enum_record (addEnum ne e acc)"
  by (cases "descriptionOf ne (enum_location e)")
     (simp add: addEnum_def enum_record_def long_name_of_def toHash_def lookup_def toString_def)

lemma fold_addEnum_records: "list_all enum_record acc \<Longrightarrow> list_all enum_record (fold (addEnum ne) es acc)"
  by (induction es arbitrary: acc) (simp_all add: addEnum_records)

lemma addExtension_records: "list_all extension_record acc \<Longrightarrow> list_all extension_record (addExtension env ne x acc)"
  by (cases "descriptionOf ne (field_location x)")
     (simp add: addExtension_def extension_record_def long_name_of_def toHash_def lookup_def toString_def
        type_information_def scope_information_def split: option.splits)

lemma fold_addExtension_records:
  "list_all extension_record acc \<Longrightarrow> list_all extension_record (fold (addExtension env ne) xs acc)"
  by (induction xs arbitrary: acc) (simp_all add: addExtension_records)

lemma fold_invariant:
  "(\<And>x acc. x \<in> set xs \<Longrightarrow> P acc \<Longrightarrow> P (f x acc)) \<Longrightarrow> P acc \<Longrightarrow> P (fold f xs acc)"
  by (induction xs arbitrary: acc) simp_all

lemma addMessages_records:
  "list_all message_record (fst acc) \<and> list_all enum_record (snd acc) \<Longrightarrow>
   list_all message_record (fst (addMessages env ne d acc)) \<and> list_all enum_record (snd (addMessages env ne d acc))"
proof (induction env ne d acc rule: addMessages.induct)
  case (1 env noExclude ref location fs xs nested es messages_enums)
  obtain description excluded where desc: "descriptionOf noExclude location = (description, excluded)"
    by (cases "descriptionOf noExclude location")
  show ?case
  proof (cases excluded)
    case True
    with desc "1.prems" show ?thesis by simp
  next
    case False
    define message where "message =
               VHash
                 [(''message_name'', VString (name ref)),
                  (''message_long_name'', VString (longName (Some ref))),
                  (''message_full_name'', VString (full_name ref)),
                  (''message_description'', VString description),
                  (''message_fields'', VList (fold (addField env noExclude) fs [])),
                  (''message_has_fields'', VBool (fold (addField env noExclude) fs [] \<noteq> [])),
                  (''message_has_extensions'', VBool (fold (addExtension env noExclude) xs [] \<noteq> [])),
                  (''message_extensions'', VList (fold (addExtension env noExclude) xs []))]"
    have m: "message_record message"
      by (simp add: message_def message_record_def long_name_of_def toHash_def lookup_def toString_def)
    let ?start = "(fst messages_enums @ [message], snd messages_enums)"
    let ?P = "\<lambda>acc. list_all message_record (fst acc) \<and> list_all enum_record (snd acc)"
    have start: "?P ?start"
      using "1.prems" m by simp
    have nested: "?P (fold (addMessages env noExclude) nested ?start)"
    proof (rule fold_invariant [where P = ?P])
      fix x acc
      assume "x \<in> set nested" and "?P acc"
      then show "?P (addMessages env noExclude x acc)"
        by (rule "1.IH" [OF refl desc [symmetric] False refl refl refl])
    qed (rule start)
    have "addMessages env noExclude (Descriptor ref location fs xs nested es) messages_enums =
        (fst (fold (addMessages env noExclude) nested ?start),
         fold (addEnum noExclude) es (snd (fold (addMessages env noExclude) nested ?start)))"
      using desc False by (simp add: message_def Let_def)
    with nested show ?thesis
      by (simp add: fold_addEnum_records)
  qed
qed

lemma fold_addMessages_records:
  "list_all message_record (fst (fold (addMessages env ne) ds ([], [])))
   \<and> list_all enum_record (snd (fold (addMessages env ne) ds ([], [])))"
  by (rule fold_invariant
        [where P = "\<lambda>acc. list_all message_record (fst acc) \<and> list_all enum_record (snd acc)"])
     (simp_all add: addMessages_records)

text \<open>
  The lists of messages, enums and extensions of a file are sorted by long
  name in ascending order, whatever the order of declaration, and hold what the
  traversal collected. Up to sixteen elements this is the insertion sort above;
  for a longer list it is what std::sort does with a comparator that compares
  keys, taken here as the hypothesis on \<open>sort_long_range\<close>.
\<close>

theorem messages_enums_extensions_sorted:
  fixes env :: Environment
  assumes long: "\<And>(key :: QVariant \<Rightarrow> string) xs.
      (\<And>a b. a \<in> set xs \<Longrightarrow> b \<in> set xs \<Longrightarrow> longNameLessThan a b = (key a < key b)) \<Longrightarrow>
      16 < length xs \<Longrightarrow>
      sorted (map key (sort_long_range env longNameLessThan xs))
      \<and> set (sort_long_range env longNameLessThan xs) = set xs"
  shows
  "sorted (map (long_name_of ''message_long_name'') (file_messages env ne fd))
   \<and> set (file_messages env ne fd) = set (fst (fold (addMessages env ne) (file_message_types fd) ([], [])))
   \<and> sorted (map (long_name_of ''enum_long_name'') (file_enums env ne fd))
   \<and> set (file_enums env ne fd)
       = set (fold (addEnum ne) (file_enum_types fd) (snd (fold (addMessages env ne) (file_message_types fd) ([], []))))
   \<and> sorted (map (long_name_of ''extension_long_name'') (file_extensions_list env ne fd))
   \<and> set (file_extensions_list env ne fd) = set (fold (addExtension env ne) (file_extensions fd) [])"
proof -
  let ?messages = "fst (fold (addMessages env ne) (file_message_types fd) ([], []))"
  let ?enums = "fold (addEnum ne) (file_enum_types fd) (snd (fold (addMessages env ne) (file_message_types fd) ([], [])))"
  let ?extensions = "fold (addExtension env ne) (file_extensions fd) []"
  have m: "list_all message_record ?messages"
    using fold_addMessages_records [of env ne "file_message_types fd"] by simp
  have e: "list_all enum_record ?enums"
    using fold_addMessages_records [of env ne "file_message_types fd"]
    by (simp add: fold_addEnum_records)
  have x: "list_all extension_record ?extensions"
    by (rule fold_addExtension_records) simp
  have ml: "\<And>a b. a \<in> set ?messages \<Longrightarrow> b \<in> set ?messages \<Longrightarrow>
      longNameLessThan a b = (long_name_of ''message_long_name'' a < long_name_of ''message_long_name'' b)"
    using m by (simp add: list_all_iff less_message_records)
  have el: "\<And>a b. a \<in> set ?enums \<Longrightarrow> b \<in> set ?enums \<Longrightarrow>
      longNameLessThan a b = (long_name_of ''enum_long_name'' a < long_name_of ''enum_long_name'' b)"
    using e by (simp add: list_all_iff less_enum_records)
  have xl: "\<And>a b. a \<in> set ?extensions \<Longrightarrow> b \<in> set ?extensions \<Longrightarrow>
      longNameLessThan a b = (long_name_of ''extension_long_name'' a < long_name_of ''extension_long_name'' b)"
    using x by (simp add: list_all_iff less_extension_records)
  show ?thesis
    unfolding file_messages_def file_enums_def file_extensions_list_def
    using std_sort_sorted [of ?messages longNameLessThan "long_name_of ''message_long_name''" env, OF ml long [OF ml]]
      std_sort_sorted [of ?enums longNameLessThan "long_name_of ''enum_long_name''" env, OF el long [OF el]]
      std_sort_sorted [of ?extensions longNameLessThan "long_name_of ''extension_long_name''" env, OF xl long [OF xl]]
    by (intro conjI)
qed

subsection \<open>QString::arg on the format strings of the code\<close>

lemmas arg_evaluation =
  QString_arg_def marker_numbers_def parse_escape_def isDigit_def digitValue_def Let_def

lemma arg_quoted: "QString_arg ''\"%1\"'' a = ''\"'' @ a @ ''\"''"
  by (simp add: arg_evaluation)

lemma arg_hex: "QString_arg ''0x%1'' a = ''0x'' @ a"
  by (simp add: arg_evaluation)

lemma arg_pieces_plain: "CHR ''%'' \<notin> set a \<Longrightarrow> arg_pieces (a @ s) = map Plain a @ arg_pieces s"
  by (induction a) auto

lemma concat_plain:
  "concat (map (\<lambda>p. case p of Plain c \<Rightarrow> [c] | Marker n t \<Rightarrow> f n t) (map Plain a @ ps))
   = a @ concat (map (\<lambda>p. case p of Plain c \<Rightarrow> [c] | Marker n t \<Rightarrow> f n t) ps)"
  by (induction a) simp_all

lemma marker_numbers_plain: "marker_numbers (map Plain a @ ps) = marker_numbers ps"
  by (induction a) (simp_all add: marker_numbers_def)

lemma arg_first: "QString_arg ''%1: %2'' a = a @ '': %2''"
  by (simp add: arg_evaluation)

text \<open>
  The chain \<open>QString("%1: %2").arg(a).arg(b)\<close> gives \<open>a\<close>, a colon, a space
  and \<open>b\<close> when \<open>a\<close> has no percent sign.
\<close>

lemma arg_chain:
  assumes "CHR ''%'' \<notin> set a"
  shows "QString_arg (QString_arg ''%1: %2'' a) b = a @ '': '' @ b"
proof -
  have pieces: "arg_pieces (a @ '': %2'') = map Plain a @ [Plain CHR '':'', Plain CHR '' '', Marker 2 ''%2'']"
    using arg_pieces_plain [OF assms, of "'': %2''"] by (simp add: parse_escape_def isDigit_def digitValue_def)
  have numbers: "marker_numbers (arg_pieces (a @ '': %2'')) = [2]"
    unfolding pieces marker_numbers_plain by (simp add: marker_numbers_def)
  have "QString_arg (a @ '': %2'') b = a @ '': '' @ b"
    unfolding QString_arg_def Let_def numbers
    unfolding pieces concat_plain
    by simp
  then show ?thesis
    by (simp only: arg_first)
qed

text \<open>
  Whatever the file name holds, the chain does not give the empty string: the
  colon of the format string is never part of a place marker, so it stays.
  The caller of addFile takes a non-empty error string for the failure.
\<close>

lemma parse_escape_consumed:
  assumes "parse_escape cs = Some (n, k)"
  shows "k \<le> length cs \<and> (\<forall>c \<in> set (take k cs). c = CHR ''L'' \<or> isDigit c)"
proof (cases "take 1 cs = ''L''")
  case True
  then obtain rest where cs: "cs = CHR ''L'' # rest"
    by (cases cs) auto
  show ?thesis
  proof (cases rest)
    case Nil
    with assms cs show ?thesis by (simp add: parse_escape_def)
  next
    case (Cons d1 rest1)
    show ?thesis
    proof (cases rest1)
      case Nil
      with assms cs Cons show ?thesis by (simp add: parse_escape_def split: if_splits)
    next
      case (Cons d2 rest2)
      with assms cs \<open>rest = d1 # rest1\<close> show ?thesis
        by (simp add: parse_escape_def split: if_splits) auto
    qed
  qed
next
  case False
  show ?thesis
  proof (cases cs)
    case Nil
    with assms show ?thesis by (simp add: parse_escape_def)
  next
    case (Cons d1 rest1)
    show ?thesis
    proof (cases rest1)
      case Nil
      with assms False Cons show ?thesis by (simp add: parse_escape_def split: if_splits)
    next
      case (Cons d2 rest2)
      with assms False \<open>cs = d1 # rest1\<close> show ?thesis
        by (simp add: parse_escape_def split: if_splits) auto
    qed
  qed
qed

lemma parse_escape_before_colon:
  assumes "parse_escape (a @ CHR '':'' # rest) = Some (n, k)"
  shows "k \<le> length a"
proof (rule ccontr)
  assume "\<not> k \<le> length a"
  then have "k = length a + Suc (k - Suc (length a))"
    by simp
  then obtain m where k: "k = length a + Suc m" ..
  have "take k (a @ CHR '':'' # rest) = a @ CHR '':'' # take m rest"
    unfolding k by simp
  then have colon: "CHR '':'' \<in> set (take k (a @ CHR '':'' # rest))"
    by simp
  from parse_escape_consumed [OF assms]
  have "\<forall>c \<in> set (take k (a @ CHR '':'' # rest)). c = CHR ''L'' \<or> isDigit c"
    by (rule conjunct2)
  from this colon have "CHR '':'' = CHR ''L'' \<or> isDigit CHR '':''"
    by (rule bspec)
  then show False
    by (simp add: isDigit_def)
qed

lemma arg_pieces_colon_at:
  "s = a @ CHR '':'' # rest \<Longrightarrow> Plain CHR '':'' \<in> set (arg_pieces s)"
proof (induction s arbitrary: a rule: arg_pieces.induct)
  case 1
  then show ?case by simp
next
  case (2 c cs)
  show ?case
  proof (cases a)
    case Nil
    with "2.prems" have "c = CHR '':''" by simp
    then show ?thesis by simp
  next
    case (Cons c' a')
    with "2.prems" have cs: "cs = a' @ CHR '':'' # rest"
      by simp
    show ?thesis
    proof (cases "c = CHR ''%''")
      case False
      from "2.IH"(3) [OF False cs] have "Plain CHR '':'' \<in> set (arg_pieces cs)" .
      with False show ?thesis by simp
    next
      case True
      show ?thesis
      proof (cases "parse_escape cs")
        case None
        from "2.IH"(1) [OF True None cs] have "Plain CHR '':'' \<in> set (arg_pieces cs)" .
        with True None show ?thesis by simp
      next
        case (Some nk)
        obtain n k where nk: "nk = (n, k)" by (cases nk)
        from Some nk have "parse_escape (a' @ CHR '':'' # rest) = Some (n, k)"
          unfolding cs by simp
        then have "k \<le> length a'"
          by (rule parse_escape_before_colon)
        then have d: "drop k cs = drop k a' @ CHR '':'' # rest"
          unfolding cs by simp
        from "2.IH"(2) [OF True Some nk [symmetric] d]
        have "Plain CHR '':'' \<in> set (arg_pieces (drop k cs))" .
        with True Some nk show ?thesis by simp
      qed
    qed
  qed
qed

lemma arg_chain_nonempty: "QString_arg (QString_arg ''%1: %2'' a) b \<noteq> []"
proof -
  have "Plain CHR '':'' \<in> set (arg_pieces (a @ '': %2''))"
    by (rule arg_pieces_colon_at [of _ a "'' %2''"]) simp
  then have "QString_arg (a @ '': %2'') b \<noteq> []"
    unfolding QString_arg_def Let_def by (simp split: if_splits) (intro impI bexI [of _ "Plain CHR '':''"], simp_all)
  then show ?thesis
    unfolding arg_first .
qed

subsection \<open>Default values\<close>

text \<open>
  C6, at a bytes field whose default is the two bytes 00 01. The code hands
  the c_str() of the default to QByteArray, which stops at the first zero byte:
  the field renders \<open>0x\<close>, where the hexadecimal form of the default is
  \<open>0001\<close>.
\<close>

theorem defaultValue_bytes_with_zero_byte:
  "defaultValue env (example_field\<lparr>type := TYPE_BYTES, cpp_type := CPPTYPE_STRING,
      has_default_value := True, default_value_string := [CHR 0x00, CHR 0x01]\<rparr>) = ''0x''
   \<and> toHex [CHR 0x00, CHR 0x01] = ''0001''"
  by (simp add: defaultValue_def example_field_def c_str_def toHex_def hexByte_def arg_hex)

lemma c_str_without_zero: "CHR 0x00 \<notin> set s \<Longrightarrow> c_str s = s"
  by (induction s) (auto simp: c_str_def)

text \<open>
  The default value by type: empty without a default; a string default in
  double quotes; a bytes default as \<open>0x\<close> and the hexadecimal digits of its
  bytes up to the first zero byte, which is all of it when it has none;
  \<open>true\<close> or \<open>false\<close>; an integer in base ten; the name of the constant
  of an enum default; and \<open>Unknown\<close> for a string representation that is
  neither string nor bytes and for a message representation.
\<close>

theorem defaultValue_by_type:
  "defaultValue env (fd\<lparr>has_default_value := False\<rparr>) = []
   \<and> defaultValue env (fd\<lparr>has_default_value := True, cpp_type := CPPTYPE_STRING, type := TYPE_STRING\<rparr>)
       = ''\"'' @ default_value_string fd @ ''\"''
   \<and> defaultValue env (fd\<lparr>has_default_value := True, cpp_type := CPPTYPE_STRING, type := TYPE_BYTES\<rparr>)
       = ''0x'' @ toHex (c_str (default_value_string fd))
   \<and> (CHR 0x00 \<notin> set (default_value_string fd) \<longrightarrow>
        defaultValue env (fd\<lparr>has_default_value := True, cpp_type := CPPTYPE_STRING, type := TYPE_BYTES\<rparr>)
          = ''0x'' @ toHex (default_value_string fd))
   \<and> defaultValue env (fd\<lparr>has_default_value := True, cpp_type := CPPTYPE_STRING, type := TYPE_INT32\<rparr>) = ''Unknown''
   \<and> defaultValue env (fd\<lparr>has_default_value := True, cpp_type := CPPTYPE_MESSAGE\<rparr>) = ''Unknown''
   \<and> defaultValue env (fd\<lparr>has_default_value := True, cpp_type := CPPTYPE_BOOL\<rparr>)
       = (if default_value_bool fd then ''true'' else ''false'')
   \<and> defaultValue env (fd\<lparr>has_default_value := True, cpp_type := CPPTYPE_INT32\<rparr>)
       = QString_number (sint (default_value_int32 fd))
   \<and> defaultValue env (fd\<lparr>has_default_value := True, cpp_type := CPPTYPE_INT64\<rparr>)
       = QString_number (sint (default_value_int64 fd))
   \<and> defaultValue env (fd\<lparr>has_default_value := True, cpp_type := CPPTYPE_UINT32\<rparr>)
       = QString_number (uint (default_value_uint32 fd))
   \<and> defaultValue env (fd\<lparr>has_default_value := True, cpp_type := CPPTYPE_UINT64\<rparr>)
       = QString_number (uint (default_value_uint64 fd))
   \<and> defaultValue env (fd\<lparr>has_default_value := True, cpp_type := CPPTYPE_ENUM\<rparr>) = default_value_enum fd"
  by (simp add: defaultValue_def c_str_without_zero arg_quoted arg_hex)

theorem defaultValue_by_type_witness:
  "defaultValue example_env (example_field\<lparr>has_default_value := True, cpp_type := CPPTYPE_STRING,
       type := TYPE_BYTES, default_value_string := ''AZ''\<rparr>) = ''0x415a''
   \<and> defaultValue example_env (example_field\<lparr>has_default_value := True, cpp_type := CPPTYPE_INT32,
       default_value_int32 := - 42\<rparr>) = ''-42''
   \<and> defaultValue example_env (example_field\<lparr>has_default_value := True, cpp_type := CPPTYPE_STRING,
       type := TYPE_STRING, default_value_string := ''abc''\<rparr>) = ''\"abc\"''"
proof -
  have bytes: "CHR 0x00 \<notin> set (default_value_string (example_field\<lparr>default_value_string := ''AZ''\<rparr>))"
    by simp
  from defaultValue_by_type [of example_env "example_field\<lparr>default_value_string := ''AZ''\<rparr>",
      THEN conjunct2, THEN conjunct2, THEN conjunct2, THEN conjunct1, THEN mp, OF bytes]
  have first: "defaultValue example_env (example_field\<lparr>has_default_value := True, cpp_type := CPPTYPE_STRING,
       type := TYPE_BYTES, default_value_string := ''AZ''\<rparr>) = ''0x415a''"
    by (simp add: example_field_def toHex_def hexByte_def)
  have second: "defaultValue example_env (example_field\<lparr>has_default_value := True, cpp_type := CPPTYPE_INT32,
       default_value_int32 := - 42\<rparr>) = ''-42''"
    by (simp add: defaultValue_def example_field_def QString_number_def digits.simps)
  have third: "defaultValue example_env (example_field\<lparr>has_default_value := True, cpp_type := CPPTYPE_STRING,
       type := TYPE_STRING, default_value_string := ''abc''\<rparr>) = ''\"abc\"''"
    by (simp add: defaultValue_def example_field_def arg_quoted)
  from first second third show ?thesis
    by (intro conjI)
qed

subsection \<open>The configuration string\<close>

lemma parse_two: "parseParameter env ''html,index.html'' ctx error =
     (True, ctx\<lparr>template := fst (readTemplate env ''html'' error), outputFileName := ''index.html'', noExclude := False\<rparr>,
      snd (readTemplate env ''html'' error))"
  by (simp add: parseParameter_def Let_def)

lemma parse_three: "parseParameter env ''html,index.html,no-exclude'' ctx error =
     (True, ctx\<lparr>template := fst (readTemplate env ''html'' error), outputFileName := ''index.html'', noExclude := True\<rparr>,
      snd (readTemplate env ''html'' error))"
  by (simp add: parseParameter_def Let_def)

lemma parse_one: "parseParameter env ''html'' ctx error = (False, ctx, usage env)"
  by (simp add: parseParameter_def)

lemma parse_ok_iff:
  "fst (parseParameter env parameter ctx error) =
     (length (QString_split (CHR '','') parameter) = 2
      \<or> (length (QString_split (CHR '','') parameter) = 3 \<and> QString_split (CHR '','') parameter ! 2 = ''no-exclude''))"
proof -
  define tokens where "tokens = QString_split (CHR '','') parameter"
  show ?thesis
    unfolding parseParameter_def Let_def tokens_def [symmetric] by auto
qed

lemma parse_failure:
  "\<not> fst (parseParameter env parameter ctx error) \<Longrightarrow> parseParameter env parameter ctx error = (False, ctx, usage env)"
proof -
  define tokens where "tokens = QString_split (CHR '','') parameter"
  assume "\<not> fst (parseParameter env parameter ctx error)"
  then show ?thesis
    unfolding parseParameter_def Let_def tokens_def [symmetric] by (auto split: if_splits)
qed

lemma Generate_parse_failure:
  assumes "parsedFiles \<noteq> []" "fileDescriptor = hd parsedFiles"
    "\<not> fst (parseParameter env parameter (generatorContext st) error)"
  shows "Generate env fileDescriptor parameter parsedFiles st error = Some (False, st, usage env)"
  using assms parse_failure [OF assms(3)] by (simp add: Generate_def Let_def)

lemma run_parse_failure:
  assumes "parsedFiles \<noteq> []" "\<not> fst (parseParameter env parameter (generatorContext st) [])"
  shows "run env parameter parsedFiles parsedFiles st = Some (False, st, usage env)"
proof (cases parsedFiles)
  case Nil
  with assms show ?thesis by simp
next
  case (Cons f fs)
  have "Generate env f parameter parsedFiles st [] = Some (False, st, usage env)"
    by (rule Generate_parse_failure) (simp_all add: assms Cons)
  then have "run env parameter parsedFiles (f # fs) st = Some (False, st, usage env)"
    by simp
  then show ?thesis
    by (simp only: Cons)
qed

text \<open>
  What the tokens of a string are: a string without the separator is its own
  single token, and the part before the first separator is the first token.
\<close>

lemma split_nonempty: "QString_split sep s \<noteq> []"
  by (induction s) (auto split: list.splits)

lemma split_plain: "sep \<notin> set t \<Longrightarrow> QString_split sep t = [t]"
  by (induction t) auto

lemma split_cons: "sep \<notin> set t \<Longrightarrow> QString_split sep (t @ sep # rest) = t # QString_split sep rest"
  by (induction t) auto

lemma join_head: "QStringList_join sep ((c # t) # ts) = c # QStringList_join sep (t # ts)"
  by (cases ts) simp_all

lemma join_split: "QStringList_join [sep] (QString_split sep s) = s"
proof (induction s)
  case Nil
  show ?case by simp
next
  case (Cons c cs)
  obtain t ts where split: "QString_split sep cs = t # ts"
    using split_nonempty [of sep cs] by (cases "QString_split sep cs") auto
  show ?case
  proof (cases "c = sep")
    case True
    with Cons split show ?thesis by simp
  next
    case False
    with Cons split show ?thesis by (simp add: join_head)
  qed
qed

lemma split_single: "QString_split sep s = [x] \<Longrightarrow> x = s"
  using join_split [of sep s] by simp

lemma parse_general_two:
  assumes "CHR '','' \<notin> set t" and "CHR '','' \<notin> set out"
  shows "parseParameter env (t @ '','' @ out) ctx error =
     (True,
      ctx\<lparr>template := (if t = ''json'' then template ctx else fst (readTemplate env t error)),
          outputFileName := out, noExclude := False\<rparr>,
      if t = ''json'' then error else snd (readTemplate env t error))"
proof -
  have tokens: "QString_split (CHR '','') (t @ '','' @ out) = [t, out]"
    using assms by (simp add: split_cons split_plain)
  show ?thesis
    unfolding parseParameter_def Let_def tokens by simp
qed

lemma parse_general_three:
  assumes "CHR '','' \<notin> set t" and "CHR '','' \<notin> set out"
  shows "parseParameter env (t @ '','' @ out @ '',no-exclude'') ctx error =
     (True,
      ctx\<lparr>template := (if t = ''json'' then template ctx else fst (readTemplate env t error)),
          outputFileName := out, noExclude := True\<rparr>,
      if t = ''json'' then error else snd (readTemplate env t error))"
proof -
  have "QString_split (CHR '','') ''no-exclude'' = [''no-exclude'']"
    by (rule split_plain) simp
  then have tokens: "QString_split (CHR '','') (t @ '','' @ out @ '',no-exclude'') = [t, out, ''no-exclude'']"
    using assms by (simp add: split_cons)
  show ?thesis
    unfolding parseParameter_def Let_def tokens by simp
qed

lemma parse_general_other:
  assumes "CHR '','' \<notin> set t" and "CHR '','' \<notin> set out" and "third \<noteq> ''no-exclude''"
  shows "parseParameter env (t @ '','' @ out @ '','' @ third) ctx error = (False, ctx, usage env)"
proof -
  define ts where "ts = QString_split (CHR '','') third"
  have tokens: "QString_split (CHR '','') (t @ '','' @ out @ '','' @ third) = t # out # ts"
    using assms(1,2) by (simp add: split_cons ts_def)
  have "length ts \<noteq> 1 \<or> ts ! 0 \<noteq> ''no-exclude''"
  proof (cases ts)
    case Nil
    then show ?thesis by simp
  next
    case (Cons x xs)
    show ?thesis
    proof (cases xs)
      case Nil
      with Cons have "QString_split (CHR '','') third = [x]"
        by (simp add: ts_def)
      then have "x = third" by (rule split_single)
      with assms(3) Cons show ?thesis by simp
    next
      case (Cons y ys)
      with \<open>ts = x # xs\<close> show ?thesis by simp
    qed
  qed
  moreover have "ts \<noteq> []"
    unfolding ts_def by (rule split_nonempty)
  ultimately show ?thesis
    unfolding parseParameter_def Let_def tokens by (cases ts) auto
qed

lemma parse_general_one:
  assumes "CHR '','' \<notin> set t"
  shows "parseParameter env t ctx error = (False, ctx, usage env)"
proof -
  have tokens: "QString_split (CHR '','') t = [t]"
    using assms by (rule split_plain)
  show ?thesis
    unfolding parseParameter_def Let_def tokens by simp
qed

text \<open>
  C5. The string \<open>html,index.html\<close> parses to the template read for
  \<open>html\<close> and the output file \<open>index.html\<close>, noExclude unset; a third token
  \<open>no-exclude\<close> sets noExclude. parseParameter succeeds exactly when there are
  two tokens, or three with the third equal to \<open>no-exclude\<close>; otherwise it
  fails with the usage text and leaves the context as it was, as for the single
  token \<open>html\<close>. A run whose configuration string does not parse ends at the
  first call with that error, before any file is added and with nothing written.
  In general, for a selector and an output name without a comma: the two joined
  by a comma parse to the template of the selector (none is read for
  \<open>json\<close>), the output name as it is written, and noExclude unset; with
  \<open>,no-exclude\<close> added, to the same with noExclude set; with a comma and
  anything else added, the string does not parse; and the selector alone does
  not parse.
\<close>

theorem parseParameter_configuration:
  "parseParameter env ''html,index.html'' ctx error =
     (True, ctx\<lparr>template := fst (readTemplate env ''html'' error), outputFileName := ''index.html'', noExclude := False\<rparr>,
      snd (readTemplate env ''html'' error))
   \<and> parseParameter env ''html,index.html,no-exclude'' ctx error =
     (True, ctx\<lparr>template := fst (readTemplate env ''html'' error), outputFileName := ''index.html'', noExclude := True\<rparr>,
      snd (readTemplate env ''html'' error))
   \<and> parseParameter env ''html'' ctx error = (False, ctx, usage env)
   \<and> fst (parseParameter env parameter ctx error) =
       (length (QString_split (CHR '','') parameter) = 2
        \<or> (length (QString_split (CHR '','') parameter) = 3 \<and> QString_split (CHR '','') parameter ! 2 = ''no-exclude''))
   \<and> (\<not> fst (parseParameter env parameter ctx error) \<longrightarrow>
        parseParameter env parameter ctx error = (False, ctx, usage env))
   \<and> (\<not> fst (parseParameter env parameter initial_context []) \<and> parsedFiles \<noteq> [] \<longrightarrow>
        run env parameter parsedFiles parsedFiles initial_state = Some (False, initial_state, usage env))
   \<and> (CHR '','' \<notin> set selector \<and> CHR '','' \<notin> set out \<longrightarrow>
        parseParameter env (selector @ '','' @ out) ctx error =
          (True,
           ctx\<lparr>template := (if selector = ''json'' then template ctx else fst (readTemplate env selector error)),
               outputFileName := out, noExclude := False\<rparr>,
           if selector = ''json'' then error else snd (readTemplate env selector error))
        \<and> parseParameter env (selector @ '','' @ out @ '',no-exclude'') ctx error =
          (True,
           ctx\<lparr>template := (if selector = ''json'' then template ctx else fst (readTemplate env selector error)),
               outputFileName := out, noExclude := True\<rparr>,
           if selector = ''json'' then error else snd (readTemplate env selector error))
        \<and> (third \<noteq> ''no-exclude'' \<longrightarrow>
             parseParameter env (selector @ '','' @ out @ '','' @ third) ctx error = (False, ctx, usage env))
        \<and> parseParameter env selector ctx error = (False, ctx, usage env))"
proof -
  have failure: "\<not> fst (parseParameter env parameter ctx error) \<longrightarrow>
        parseParameter env parameter ctx error = (False, ctx, usage env)"
    by (rule impI) (rule parse_failure)
  have run_fails: "\<not> fst (parseParameter env parameter initial_context []) \<and> parsedFiles \<noteq> [] \<longrightarrow>
        run env parameter parsedFiles parsedFiles initial_state = Some (False, initial_state, usage env)"
  proof (rule impI, erule conjE)
    assume "\<not> fst (parseParameter env parameter initial_context [])" and "parsedFiles \<noteq> []"
    then show "run env parameter parsedFiles parsedFiles initial_state = Some (False, initial_state, usage env)"
      by (intro run_parse_failure) (simp_all add: initial_state_def)
  qed
  have general: "CHR '','' \<notin> set selector \<and> CHR '','' \<notin> set out \<longrightarrow>
        parseParameter env (selector @ '','' @ out) ctx error =
          (True,
           ctx\<lparr>template := (if selector = ''json'' then template ctx else fst (readTemplate env selector error)),
               outputFileName := out, noExclude := False\<rparr>,
           if selector = ''json'' then error else snd (readTemplate env selector error))
        \<and> parseParameter env (selector @ '','' @ out @ '',no-exclude'') ctx error =
          (True,
           ctx\<lparr>template := (if selector = ''json'' then template ctx else fst (readTemplate env selector error)),
               outputFileName := out, noExclude := True\<rparr>,
           if selector = ''json'' then error else snd (readTemplate env selector error))
        \<and> (third \<noteq> ''no-exclude'' \<longrightarrow>
             parseParameter env (selector @ '','' @ out @ '','' @ third) ctx error = (False, ctx, usage env))
        \<and> parseParameter env selector ctx error = (False, ctx, usage env)"
  proof (rule impI, erule conjE)
    assume s: "CHR '','' \<notin> set selector" and out: "CHR '','' \<notin> set out"
    have other: "third \<noteq> ''no-exclude'' \<longrightarrow>
             parseParameter env (selector @ '','' @ out @ '','' @ third) ctx error = (False, ctx, usage env)"
      by (rule impI) (rule parse_general_other [OF s out])
    from parse_general_two [OF s out] parse_general_three [OF s out] other parse_general_one [OF s]
    show "parseParameter env (selector @ '','' @ out) ctx error =
          (True,
           ctx\<lparr>template := (if selector = ''json'' then template ctx else fst (readTemplate env selector error)),
               outputFileName := out, noExclude := False\<rparr>,
           if selector = ''json'' then error else snd (readTemplate env selector error))
        \<and> parseParameter env (selector @ '','' @ out @ '',no-exclude'') ctx error =
          (True,
           ctx\<lparr>template := (if selector = ''json'' then template ctx else fst (readTemplate env selector error)),
               outputFileName := out, noExclude := True\<rparr>,
           if selector = ''json'' then error else snd (readTemplate env selector error))
        \<and> (third \<noteq> ''no-exclude'' \<longrightarrow>
             parseParameter env (selector @ '','' @ out @ '','' @ third) ctx error = (False, ctx, usage env))
        \<and> parseParameter env selector ctx error = (False, ctx, usage env)"
      by (intro conjI)
  qed
  show ?thesis
    using parse_two [of env ctx error] parse_three [of env ctx error] parse_one [of env ctx error]
      parse_ok_iff [of env parameter ctx error] failure run_fails general
    by (intro conjI)
qed

theorem parseParameter_configuration_witness:
  "run example_env ''html,index.html,nope''
       [example_file ''a.proto'', example_file ''b.proto''] [example_file ''a.proto'', example_file ''b.proto''] initial_state
     = Some (False, initial_state, usage example_env)
   \<and> written initial_state = []
   \<and> parseParameter example_env ''json,docs/out.json,no-exclude'' initial_context [] =
       (True, initial_context\<lparr>outputFileName := ''docs/out.json'', noExclude := True\<rparr>, [])
   \<and> parseParameter example_env ''json,docs/out.json,yes'' initial_context [] =
       (False, initial_context, usage example_env)"
proof -
  note claim = parseParameter_configuration [where env = example_env and ctx = initial_context
      and error = "[]" and parameter = "''html,index.html,nope''"
      and parsedFiles = "[example_file ''a.proto'', example_file ''b.proto'']"
      and selector = "''json''" and out = "''docs/out.json''" and third = "''yes''"]
  have failing: "\<not> fst (parseParameter example_env ''html,index.html,nope'' initial_context [])
      \<and> [example_file ''a.proto'', example_file ''b.proto''] \<noteq> []"
    by (simp add: parseParameter_def)
  have "\<not> fst (parseParameter example_env ''html,index.html,nope'' initial_context [])
      \<and> [example_file ''a.proto'', example_file ''b.proto''] \<noteq> [] \<longrightarrow>
     run example_env ''html,index.html,nope''
       [example_file ''a.proto'', example_file ''b.proto''] [example_file ''a.proto'', example_file ''b.proto''] initial_state
     = Some (False, initial_state, usage example_env)"
    using claim by (elim conjE)
  with failing have first: "run example_env ''html,index.html,nope''
       [example_file ''a.proto'', example_file ''b.proto''] [example_file ''a.proto'', example_file ''b.proto''] initial_state
     = Some (False, initial_state, usage example_env)"
    by (rule rev_mp)
  have second: "written initial_state = []"
    by (simp add: initial_state_def)
  have tokens: "CHR '','' \<notin> set ''json'' \<and> CHR '','' \<notin> set ''docs/out.json''"
    by simp
  note general = claim [THEN conjunct2, THEN conjunct2, THEN conjunct2, THEN conjunct2, THEN conjunct2,
      THEN conjunct2, THEN mp, OF tokens]
  from general [THEN conjunct2, THEN conjunct1]
  have third: "parseParameter example_env ''json,docs/out.json,no-exclude'' initial_context [] =
       (True, initial_context\<lparr>outputFileName := ''docs/out.json'', noExclude := True\<rparr>, [])"
    by (simp add: initial_context_def)
  have "''yes'' \<noteq> ''no-exclude''"
    by simp
  with general [THEN conjunct2, THEN conjunct2, THEN conjunct1]
  have fourth: "parseParameter example_env ''json,docs/out.json,yes'' initial_context [] =
       (False, initial_context, usage example_env)"
    by simp
  from first second third fourth show ?thesis
    by (intro conjI)
qed

subsection \<open>Evaluation on the examples\<close>

lemmas evaluation =
  Generate_def parseParameter_def addFile_def descriptionOf_file_def render_def
  example_env_def example_file_def initial_state_def initial_context_def
  scan.simps check_excluded_def trimmed_def startsWith_def mid_def fileName_of_def
  file_messages_def file_enums_def file_services_list_def file_extensions_list_def std_sort_def Let_def

lemmas string_evaluation =
  is_slash_line_def slash_text_def trimmed_def isSpace_def startsWith_def mid_def readLine_def
  check_excluded_def terminated_lines_def

subsection \<open>The selector json\<close>

lemma parse_json:
  assumes "QString_split (CHR '','') parameter ! 0 = ''json''"
    and "fst (parseParameter env parameter ctx error)"
  shows "template (fst (snd (parseParameter env parameter ctx error))) = template ctx"
    and "snd (snd (parseParameter env parameter ctx error)) = error"
    and "parseParameter (env\<lparr>open_file := other\<rparr>) parameter ctx error = parseParameter env parameter ctx error"
proof -
  define tokens where "tokens = QString_split (CHR '','') parameter"
  from assms show "template (fst (snd (parseParameter env parameter ctx error))) = template ctx"
    unfolding parseParameter_def Let_def tokens_def [symmetric] by (auto split: if_splits)
  from assms show "snd (snd (parseParameter env parameter ctx error)) = error"
    unfolding parseParameter_def Let_def tokens_def [symmetric] by (auto split: if_splits)
  from assms show "parseParameter (env\<lparr>open_file := other\<rparr>) parameter ctx error = parseParameter env parameter ctx error"
    unfolding parseParameter_def Let_def tokens_def [symmetric] usage_def by (auto split: if_splits)
qed

lemma parse_json_initial:
  "parseParameter env ''json,out.json'' initial_context [] = (True, initial_context\<lparr>outputFileName := ''out.json''\<rparr>, [])"
  by (simp add: parseParameter_def Let_def initial_context_def)

lemma render_json:
  assumes "template (generatorContext st) = []"
  shows "render env st error =
          (case fromVariant env (files (generatorContext st)) of
             None \<Rightarrow> (False, st\<lparr>render_log := render_log st @ [files (generatorContext st)]\<rparr>,
                       ''Failed to create JSON document'')
           | Some json \<Rightarrow>
               (True, st\<lparr>render_log := render_log st @ [files (generatorContext st)],
                         written := written st @ [(outputFileName (generatorContext st), json)]\<rparr>, error))"
  using assms by (simp add: render_def Let_def split: option.splits)

lemma render_json_engine:
  assumes "template (generatorContext st) = []"
  shows "render (env\<lparr>mustache := engine, open_file := other\<rparr>) st error = render env st error"
  using assms by (simp add: render_def Let_def split: option.splits)

text \<open>
  C10. When the first token is \<open>json\<close> and the string parses, parseParameter
  leaves the template and the error string as they were and does not open any
  file (its result is the same whatever open_file is); from the initial context
  the template stays empty. render, on an empty template, writes what
  QJsonDocument makes of the accumulated list of files to the output file, or
  fails when the document is null; the template engine and the file system
  have no part in the result.
\<close>

theorem json_selector:
  "(QString_split (CHR '','') parameter ! 0 = ''json'' \<and> fst (parseParameter env parameter ctx error) \<longrightarrow>
       template (fst (snd (parseParameter env parameter ctx error))) = template ctx
       \<and> snd (snd (parseParameter env parameter ctx error)) = error
       \<and> parseParameter (env\<lparr>open_file := other\<rparr>) parameter ctx error = parseParameter env parameter ctx error)
   \<and> parseParameter env ''json,out.json'' initial_context [] = (True, initial_context\<lparr>outputFileName := ''out.json''\<rparr>, [])
   \<and> (template (generatorContext st) = [] \<longrightarrow>
        render env st error' =
          (case fromVariant env (files (generatorContext st)) of
             None \<Rightarrow> (False, st\<lparr>render_log := render_log st @ [files (generatorContext st)]\<rparr>,
                       ''Failed to create JSON document'')
           | Some json \<Rightarrow>
               (True, st\<lparr>render_log := render_log st @ [files (generatorContext st)],
                         written := written st @ [(outputFileName (generatorContext st), json)]\<rparr>, error'))
        \<and> render (env\<lparr>mustache := engine, open_file := other\<rparr>) st error' = render env st error')"
proof (intro conjI impI)
  assume json: "QString_split (CHR '','') parameter ! 0 = ''json'' \<and> fst (parseParameter env parameter ctx error)"
  then show "template (fst (snd (parseParameter env parameter ctx error))) = template ctx"
    by (simp add: parse_json(1))
  from json show "snd (snd (parseParameter env parameter ctx error)) = error"
    by (simp add: parse_json(2))
  from json show "parseParameter (env\<lparr>open_file := other\<rparr>) parameter ctx error = parseParameter env parameter ctx error"
    by (simp add: parse_json(3))
next
  show "parseParameter env ''json,out.json'' initial_context [] = (True, initial_context\<lparr>outputFileName := ''out.json''\<rparr>, [])"
    by (rule parse_json_initial)
next
  assume empty: "template (generatorContext st) = []"
  then show "render env st error' =
          (case fromVariant env (files (generatorContext st)) of
             None \<Rightarrow> (False, st\<lparr>render_log := render_log st @ [files (generatorContext st)]\<rparr>,
                       ''Failed to create JSON document'')
           | Some json \<Rightarrow>
               (True, st\<lparr>render_log := render_log st @ [files (generatorContext st)],
                         written := written st @ [(outputFileName (generatorContext st), json)]\<rparr>, error'))"
    by (rule render_json)
  from empty show "render (env\<lparr>mustache := engine, open_file := other\<rparr>) st error' = render env st error'"
    by (rule render_json_engine)
qed

theorem json_selector_witness:
  "fst (parseParameter example_env ''json,out.json,no-exclude'' initial_context [])
   \<and> template (fst (snd (parseParameter example_env ''json,out.json,no-exclude'' initial_context []))) = []
   \<and> fst (render example_env example_json_state [])
   \<and> written (fst (snd (render example_env example_json_state []))) = [(''out.json'', ''json'')]"
proof -
  have ok: "QString_split (CHR '','') ''json,out.json,no-exclude'' ! 0 = ''json''
      \<and> fst (parseParameter example_env ''json,out.json,no-exclude'' initial_context [])"
    by (simp add: parseParameter_def Let_def)
  have empty: "template (generatorContext example_json_state) = []"
    by (simp add: example_json_state_def)
  note claim = json_selector [of "''json,out.json,no-exclude''" example_env initial_context "[]"
      "open_file example_env" example_json_state "[]" "mustache example_env"]
  have kept: "template (fst (snd (parseParameter example_env ''json,out.json,no-exclude'' initial_context []))) = template initial_context"
    by (rule claim [THEN conjunct1, THEN mp, OF ok, THEN conjunct1])
  have json: "render example_env example_json_state [] =
          (case fromVariant example_env (files (generatorContext example_json_state)) of
             None \<Rightarrow> (False, example_json_state\<lparr>render_log := render_log example_json_state @ [files (generatorContext example_json_state)]\<rparr>,
                       ''Failed to create JSON document'')
           | Some json \<Rightarrow>
               (True, example_json_state\<lparr>render_log := render_log example_json_state @ [files (generatorContext example_json_state)],
                         written := written example_json_state @ [(outputFileName (generatorContext example_json_state), json)]\<rparr>, []))"
    by (rule claim [THEN conjunct2, THEN conjunct2, THEN mp, OF empty, THEN conjunct1])
  from ok have first: "fst (parseParameter example_env ''json,out.json,no-exclude'' initial_context [])"
    by (rule conjunct2)
  from kept have second: "template (fst (snd (parseParameter example_env ''json,out.json,no-exclude'' initial_context []))) = []"
    by (simp add: initial_context_def)
  have third: "fst (render example_env example_json_state [])"
    by (simp add: json) (simp add: example_env_def)
  have fourth: "written (fst (snd (render example_env example_json_state []))) = [(''out.json'', ''json'')]"
    by (simp add: json) (simp add: example_env_def example_json_state_def)
  from first second third fourth show ?thesis
    by (intro conjI)
qed

subsection \<open>Generate and the run of the host\<close>

lemma addFile_open_failure:
  assumes "open_file env (file_name fileDescriptor) = Inl errorString"
  shows "\<exists>files'. addFile env ne fileDescriptor acc error
           = Some (files', QString_arg (QString_arg ''%1: %2'' (file_name fileDescriptor)) errorString)"
  using assms by (simp add: addFile_def descriptionOf_file_def)

lemma render_effect:
  assumes "render env st error = (ok, st', error')"
  shows "generatorContext st' = generatorContext st"
    and "render_log st' = render_log st @ [files (generatorContext st)]"
    and "\<not> ok \<Longrightarrow> written st' = written st"
  using assms by (auto simp: render_def Let_def split: option.splits sum.splits if_splits)

lemma render_success:
  assumes "render env st error = (True, st', error')"
  shows "error' = error"
    and "\<exists>text. written st' = written st @ [(outputFileName (generatorContext st), text)]
          \<and> (template (generatorContext st) = [] \<longrightarrow> fromVariant env (files (generatorContext st)) = Some text)
          \<and> (template (generatorContext st) \<noteq> [] \<longrightarrow>
               (\<exists>table. open_file env '':/templates/scalar_value_types.json'' = Inr table
                  \<and> text = rendered (mustache env (template (generatorContext st))
                                (files (generatorContext st)) (fromJson env table))))"
  using assms by (auto simp: render_def Let_def split: option.splits sum.splits if_splits)

text \<open>
  A call of Generate that returns ends in one of three ways: parseParameter
  failed on the first file; the file was added and the call ended without
  render, on an error or because the file is not the last; or the file was added
  without error, it is the last one, and the result is that of render.
\<close>

lemma Generate_cases:
  assumes "Generate env fd parameter parsedFiles st error = Some (ok, st', error')"
  obtains (parse_failed) "fd = hd parsedFiles" "\<not> fst (parseParameter env parameter (generatorContext st) error)"
      "\<not> ok" "st' = st\<lparr>generatorContext := fst (snd (parseParameter env parameter (generatorContext st) error))\<rparr>"
  | (added) ctx error1 files' where
      "ctx = (if fd = hd parsedFiles then fst (snd (parseParameter env parameter (generatorContext st) error))
              else generatorContext st)"
      "error1 = (if fd = hd parsedFiles then snd (snd (parseParameter env parameter (generatorContext st) error))
                 else error)"
      "fd = hd parsedFiles \<longrightarrow> fst (parseParameter env parameter (generatorContext st) error)"
      "addFile env (noExclude ctx) fd (files ctx) error1 = Some (files', error')"
      "error' \<noteq> [] \<or> fd \<noteq> last parsedFiles"
      "ok = (error' = [])"
      "st' = st\<lparr>generatorContext := ctx\<lparr>files := files'\<rparr>\<rparr>"
  | (render_called) ctx error1 files' where
      "ctx = (if fd = hd parsedFiles then fst (snd (parseParameter env parameter (generatorContext st) error))
              else generatorContext st)"
      "error1 = (if fd = hd parsedFiles then snd (snd (parseParameter env parameter (generatorContext st) error))
                 else error)"
      "fd = hd parsedFiles \<longrightarrow> fst (parseParameter env parameter (generatorContext st) error)"
      "addFile env (noExclude ctx) fd (files ctx) error1 = Some (files', [])"
      "fd = last parsedFiles"
      "render env (st\<lparr>generatorContext := ctx\<lparr>files := files'\<rparr>\<rparr>) [] = (ok, st', error')"
proof (cases "fd = hd parsedFiles")
  case True
  show ?thesis
  proof (cases "fst (parseParameter env parameter (generatorContext st) error)")
    case False
    with True assms show ?thesis
      by (intro parse_failed) (auto simp: Generate_def Let_def split: if_splits)
  next
    case parsed: True
    obtain ctx error1 where p: "snd (parseParameter env parameter (generatorContext st) error) = (ctx, error1)"
      by (cases "snd (parseParameter env parameter (generatorContext st) error)")
    from assms True parsed p obtain files' error2 where
      a: "addFile env (noExclude ctx) fd (files ctx) error1 = Some (files', error2)"
      by (auto simp: Generate_def Let_def split: if_splits option.splits)
    show ?thesis
    proof (cases "error2 = [] \<and> fd = last parsedFiles")
      case True
      with assms \<open>fd = hd parsedFiles\<close> parsed p a show ?thesis
        by (intro render_called [of ctx error1 files']) (auto simp: Generate_def Let_def split: if_splits)
    next
      case False
      with assms \<open>fd = hd parsedFiles\<close> parsed p a show ?thesis
        by (intro added [of ctx error1 files']) (auto simp: Generate_def Let_def split: if_splits)
    qed
  qed
next
  case False
  from assms False obtain files' error2 where
    a: "addFile env (noExclude (generatorContext st)) fd (files (generatorContext st)) error = Some (files', error2)"
    by (auto simp: Generate_def Let_def split: if_splits option.splits)
  show ?thesis
  proof (cases "error2 = [] \<and> fd = last parsedFiles")
    case True
    with assms False a show ?thesis
      by (intro render_called [of "generatorContext st" error files']) (auto simp: Generate_def Let_def split: if_splits)
  next
    case nr: False
    with assms False a show ?thesis
      by (intro added [of "generatorContext st" error files']) (auto simp: Generate_def Let_def split: if_splits)
  qed
qed

lemma addFile_appends:
  assumes "addFile env ne fd acc error = Some (files', error')"
  shows "files' = acc @ records_of env ne fd"
  using assms
  by (auto simp: addFile_def records_of_def descriptionOf_file_def
      split: sum.splits option.splits if_splits)

lemma Generate_open_failure:
  assumes failure: "open_file env (file_name fd) = Inl errorString"
    and "parsedFiles \<noteq> []"
    and parsed: "fd = hd parsedFiles \<longrightarrow> fst (parseParameter env parameter (generatorContext st) error)"
  shows "\<exists>st'. Generate env fd parameter parsedFiles st error
            = Some (False, st', QString_arg (QString_arg ''%1: %2'' (file_name fd)) errorString)
          \<and> written st' = written st \<and> render_log st' = render_log st"
proof -
  define ctx where "ctx = (if fd = hd parsedFiles then fst (snd (parseParameter env parameter (generatorContext st) error))
                           else generatorContext st)"
  define error1 where "error1 = (if fd = hd parsedFiles then snd (snd (parseParameter env parameter (generatorContext st) error))
                           else error)"
  obtain files' where a: "addFile env (noExclude ctx) fd (files ctx) error1
      = Some (files', QString_arg (QString_arg ''%1: %2'' (file_name fd)) errorString)"
    using addFile_open_failure [OF failure] by blast
  have "Generate env fd parameter parsedFiles st error
      = Some (False, st\<lparr>generatorContext := ctx\<lparr>files := files'\<rparr>\<rparr>, QString_arg (QString_arg ''%1: %2'' (file_name fd)) errorString)"
    using assms(2) parsed a by (auto simp: Generate_def Let_def ctx_def error1_def arg_chain_nonempty)
  then show ?thesis by simp
qed

lemma Generate_written:
  assumes "Generate env fd parameter parsedFiles st error = Some (ok, st', error')"
    and "\<not> ok \<or> fd \<noteq> last parsedFiles"
  shows "written st' = written st"
  using assms(1)
proof (cases rule: Generate_cases)
  case parse_failed
  then show ?thesis by simp
next
  case (added ctx error1 files')
  then show ?thesis by simp
next
  case (render_called ctx error1 files')
  with assms(2) have "\<not> ok" by simp
  with render_effect(3) [OF render_called(6)] show ?thesis by simp
qed

lemma Generate_render_log:
  assumes "Generate env fd parameter parsedFiles st error = Some (ok, st', error')"
    and "fd \<noteq> last parsedFiles"
  shows "render_log st' = render_log st"
  using assms(1)
proof (cases rule: Generate_cases)
  case parse_failed
  then show ?thesis by simp
next
  case (added ctx error1 files')
  then show ?thesis by simp
next
  case (render_called ctx error1 files')
  with assms(2) show ?thesis by simp
qed

lemma run_append:
  "run env parameter parsedFiles (xs @ ys) st =
     (case run env parameter parsedFiles xs st of
        None \<Rightarrow> None
      | Some (ok, st', error) \<Rightarrow>
          if ok then run env parameter parsedFiles ys st' else Some (False, st', error))"
  by (induction xs arbitrary: st) (auto split: option.splits)

lemma run_not_last:
  assumes "last parsedFiles \<notin> set todo"
    and "run env parameter parsedFiles todo st = Some (ok, st', error)"
  shows "written st' = written st \<and> render_log st' = render_log st"
  using assms
proof (induction todo arbitrary: st)
  case Nil
  then show ?case by simp
next
  case (Cons fd todo)
  from Cons.prems(2) obtain ok1 st1 error1 where
    g: "Generate env fd parameter parsedFiles st [] = Some (ok1, st1, error1)"
    by (auto split: option.splits)
  from Cons.prems(1) have notlast: "fd \<noteq> last parsedFiles" by auto
  have keep: "written st1 = written st \<and> render_log st1 = render_log st"
    using Generate_written [OF g] Generate_render_log [OF g] notlast by simp
  show ?case
  proof (cases ok1)
    case True
    with Cons.prems(2) g have "run env parameter parsedFiles todo st1 = Some (ok, st', error)"
      by simp
    with Cons.IH [of st1] Cons.prems(1) keep show ?thesis by simp
  next
    case False
    with Cons.prems(2) g keep show ?thesis by auto
  qed
qed

lemma run_failure_written:
  assumes "last parsedFiles \<notin> set (butlast todo)"
    and "run env parameter parsedFiles todo st = Some (False, st', error)"
  shows "written st' = written st"
  using assms
proof (induction todo arbitrary: st)
  case Nil
  then show ?case by simp
next
  case (Cons fd todo)
  from Cons.prems(2) obtain ok1 st1 error1 where
    g: "Generate env fd parameter parsedFiles st [] = Some (ok1, st1, error1)"
    by (auto split: option.splits)
  show ?case
  proof (cases ok1)
    case False
    with Cons.prems(2) g have "st' = st1" by simp
    with Generate_written [OF g] False show ?thesis by simp
  next
    case True
    with Cons.prems(2) g have r: "run env parameter parsedFiles todo st1 = Some (False, st', error)"
      by simp
    then have "todo \<noteq> []" by auto
    with Cons.prems(1) have "fd \<noteq> last parsedFiles" and "last parsedFiles \<notin> set (butlast todo)"
      by auto
    with Generate_written [OF g] Cons.IH [OF _ r] show ?thesis by simp
  qed
qed

lemma run_open_failure:
  assumes failure: "open_file env (file_name fd) = Inl errorString"
    and "fd \<in> set todo"
    and "run env parameter parsedFiles todo st = Some (ok, st', error)"
  shows "\<not> ok"
  using assms(2,3)
proof (induction todo arbitrary: st)
  case Nil
  then show ?case by simp
next
  case (Cons f todo)
  from Cons.prems(2) obtain ok1 st1 error1 where
    g: "Generate env f parameter parsedFiles st [] = Some (ok1, st1, error1)"
    by (auto split: option.splits)
  show ?case
  proof (cases ok1)
    case False
    with Cons.prems(2) g show ?thesis by auto
  next
    case True
    have "f \<noteq> fd"
    proof
      assume "f = fd"
      from g True show False
      proof (cases rule: Generate_cases)
        case parse_failed
        with True show ?thesis by simp
      next
        case (added ctx error1 files')
        with addFile_open_failure [OF failure, of "noExclude ctx" "files ctx" error1] \<open>f = fd\<close> True
          arg_chain_nonempty [of "file_name fd" errorString]
        show ?thesis by auto
      next
        case (render_called ctx error1 files')
        with addFile_open_failure [OF failure, of "noExclude ctx" "files ctx" error1] \<open>f = fd\<close>
          arg_chain_nonempty [of "file_name fd" errorString]
        show ?thesis by auto
      qed
    qed
    with Cons.prems(1) have "fd \<in> set todo" by simp
    moreover from True Cons.prems(2) g have "run env parameter parsedFiles todo st1 = Some (ok, st', error)"
      by simp
    ultimately show ?thesis by (rule Cons.IH)
  qed
qed

lemma distinct_last_butlast: "distinct xs \<Longrightarrow> xs \<noteq> [] \<Longrightarrow> last xs \<notin> set (butlast xs)"
  by (induction xs) (auto dest: in_set_butlastD)

lemma open_failure_run_at:
  assumes failure: "open_file env (file_name fd) = Inl errorString"
    and all: "parsedFiles = pre @ fd # post" and d: "distinct parsedFiles"
    and parsed: "fst (parseParameter env parameter initial_context [])"
    and before: "run env parameter parsedFiles pre initial_state = Some (True, st1, error1)"
  shows "\<exists>st'. run env parameter parsedFiles parsedFiles initial_state
            = Some (False, st', QString_arg (QString_arg ''%1: %2'' (file_name fd)) errorString)
          \<and> written st' = []"
proof -
  have nl: "last parsedFiles \<notin> set pre"
    using all d by (cases post rule: rev_cases) auto
  have w1: "written st1 = []"
    using run_not_last [OF nl before] by (simp add: initial_state_def)
  have first: "fd = hd parsedFiles \<longrightarrow> fst (parseParameter env parameter (generatorContext st1) [])"
  proof
    assume "fd = hd parsedFiles"
    have "pre = []"
    proof (cases pre)
      case Nil
      then show ?thesis .
    next
      case (Cons a list)
      with all have "hd parsedFiles = a" by simp
      with \<open>fd = hd parsedFiles\<close> have "fd = a" by simp
      with all Cons d show ?thesis by simp
    qed
    with before have "st1 = initial_state" by simp
    with parsed show "fst (parseParameter env parameter (generatorContext st1) [])"
      by (simp add: initial_state_def)
  qed
  from all have "parsedFiles \<noteq> []" by simp
  from Generate_open_failure [OF failure this first]
  obtain st' where g: "Generate env fd parameter parsedFiles st1 []
      = Some (False, st', QString_arg (QString_arg ''%1: %2'' (file_name fd)) errorString)" and w: "written st' = written st1"
    by blast
  have "run env parameter parsedFiles (pre @ fd # post) initial_state
      = Some (False, st', QString_arg (QString_arg ''%1: %2'' (file_name fd)) errorString)"
    using before g by (simp add: run_append)
  with all w w1 show ?thesis by simp
qed

lemma open_failure_run:
  assumes failure: "open_file env (file_name fd) = Inl errorString"
    and mem: "fd \<in> set parsedFiles" and d: "distinct parsedFiles"
    and r: "run env parameter parsedFiles parsedFiles initial_state = Some result"
  shows "\<not> fst result \<and> written (fst (snd result)) = []"
proof -
  obtain ok st' error where result: "result = (ok, st', error)"
    by (cases result)
  from r result have r': "run env parameter parsedFiles parsedFiles initial_state = Some (ok, st', error)"
    by simp
  from run_open_failure [OF failure mem r'] have "\<not> ok" .
  moreover from mem have "parsedFiles \<noteq> []" by auto
  with d have "last parsedFiles \<notin> set (butlast parsedFiles)"
    by (simp add: distinct_last_butlast)
  with r' \<open>\<not> ok\<close> have "written st' = written initial_state"
    by (intro run_failure_written [of parsedFiles parsedFiles env parameter initial_state st' error]) simp_all
  ultimately show ?thesis
    using result by (simp add: initial_state_def)
qed

text \<open>
  Let the open of the file of \<open>fileDescriptor\<close> fail with \<open>errorString\<close>.
  The call of Generate for it, when it gets as far as the file (it is not the
  first file, or the configuration string parses), returns false with the
  error that the chain of arg makes of the file name and \<open>errorString\<close>, and
  writes nothing. In a run over a list of distinct files in which the calls
  before it succeed, the run ends at this call with that error and nothing
  written; and whatever comes before, a run over a list that holds the file
  never succeeds and never writes.
\<close>

lemma open_failure_aborts:
  assumes "open_file env (file_name fileDescriptor) = Inl errorString"
  shows "(parsedFiles \<noteq> []
          \<and> (fileDescriptor = hd parsedFiles \<longrightarrow> fst (parseParameter env parameter (generatorContext st) [])) \<longrightarrow>
            (\<exists>st'. Generate env fileDescriptor parameter parsedFiles st []
                      = Some (False, st', QString_arg (QString_arg ''%1: %2'' (file_name fileDescriptor)) errorString)
                    \<and> written st' = written st \<and> render_log st' = render_log st))
       \<and> (parsedFiles = pre @ fileDescriptor # post \<and> distinct parsedFiles
          \<and> fst (parseParameter env parameter initial_context [])
          \<and> run env parameter parsedFiles pre initial_state = Some (True, st1, error1) \<longrightarrow>
            (\<exists>st'. run env parameter parsedFiles parsedFiles initial_state
                      = Some (False, st', QString_arg (QString_arg ''%1: %2'' (file_name fileDescriptor)) errorString)
                    \<and> written st' = []))
       \<and> (fileDescriptor \<in> set parsedFiles \<and> distinct parsedFiles \<longrightarrow>
            (\<forall>result. run env parameter parsedFiles parsedFiles initial_state = Some result \<longrightarrow>
               \<not> fst result \<and> written (fst (snd result)) = []))"
proof (intro conjI impI allI)
  assume "parsedFiles \<noteq> []
          \<and> (fileDescriptor = hd parsedFiles \<longrightarrow> fst (parseParameter env parameter (generatorContext st) []))"
  then show "\<exists>st'. Generate env fileDescriptor parameter parsedFiles st []
                      = Some (False, st', QString_arg (QString_arg ''%1: %2'' (file_name fileDescriptor)) errorString)
                    \<and> written st' = written st \<and> render_log st' = render_log st"
    using Generate_open_failure [OF assms] by blast
next
  assume "parsedFiles = pre @ fileDescriptor # post \<and> distinct parsedFiles
          \<and> fst (parseParameter env parameter initial_context [])
          \<and> run env parameter parsedFiles pre initial_state = Some (True, st1, error1)"
  then show "\<exists>st'. run env parameter parsedFiles parsedFiles initial_state
                      = Some (False, st', QString_arg (QString_arg ''%1: %2'' (file_name fileDescriptor)) errorString)
                    \<and> written st' = []"
    using open_failure_run_at [OF assms] by blast
next
  fix result
  assume "fileDescriptor \<in> set parsedFiles \<and> distinct parsedFiles"
    and "run env parameter parsedFiles parsedFiles initial_state = Some result"
  then show "\<not> fst result" and "written (fst (snd result)) = []"
    using open_failure_run [OF assms] by blast+
qed

lemma open_failure_example:
  "\<exists>st'. run example_env ''json,out.json''
       [example_file ''a.proto'', example_file ''missing.proto'']
       [example_file ''a.proto'', example_file ''missing.proto''] initial_state
       = Some (False, st', ''missing.proto: No such file or directory'')
     \<and> written st' = []"
proof -
  have failure: "open_file example_env (file_name (example_file ''missing.proto''))
      = Inl ''No such file or directory''"
    by (simp add: example_env_def example_file_def)
  have "\<exists>st error. run example_env ''json,out.json''
      [example_file ''a.proto'', example_file ''missing.proto'']
      [example_file ''a.proto''] initial_state
    = Some (True, st, error)"
    by (simp add: evaluation)
  then obtain st1 error1 where before: "run example_env ''json,out.json''
      [example_file ''a.proto'', example_file ''missing.proto'']
      [example_file ''a.proto''] initial_state
    = Some (True, st1, error1)"
    by blast
  have parsed: "fst (parseParameter example_env ''json,out.json'' initial_context [])"
    by (simp add: parseParameter_def Let_def)
  have d: "distinct [example_file ''a.proto'', example_file ''missing.proto'']"
    by (simp add: example_file_def)
  have hyp: "[example_file ''a.proto'', example_file ''missing.proto'']
        = [example_file ''a.proto''] @ example_file ''missing.proto'' # []
      \<and> distinct [example_file ''a.proto'', example_file ''missing.proto'']
      \<and> fst (parseParameter example_env ''json,out.json'' initial_context [])
      \<and> run example_env ''json,out.json'' [example_file ''a.proto'', example_file ''missing.proto'']
            [example_file ''a.proto''] initial_state = Some (True, st1, error1)"
    using d parsed before by simp
  from open_failure_aborts [OF failure, THEN conjunct2, THEN conjunct1, THEN mp, OF hyp]
  show ?thesis
    by (simp add: example_file_def arg_chain)
qed

text \<open>
  C8, at the file \<open>a%1.proto\<close> whose open fails with
  \<open>No such file or directory\<close>. The run aborts at the call for the file and
  nothing is written, but the error message is
  \<open>aNo such file or directory.proto: %2\<close>: the first arg puts the file name
  in, the second one replaces the place marker \<open>%1\<close> that came with the
  name, and \<open>%2\<close> stays. The message does not contain the file name.
\<close>

theorem open_failure_message_without_file_name:
  "map_option (\<lambda>(ok, st, error). (ok, written st, error))
     (run unreadable_env ''json,out.json'' [example_file ''a%1.proto''] [example_file ''a%1.proto''] initial_state)
   = Some (False, [], ''aNo such file or directory.proto: %2'')
   \<and> indexOf ''aNo such file or directory.proto: %2'' (file_name (example_file ''a%1.proto'')) = -1"
  by (simp add: evaluation arg_evaluation unreadable_env_def)

lemma parseParameter_files: "files (fst (snd (parseParameter env parameter ctx error))) = files ctx"
proof -
  define tokens where "tokens = QString_split (CHR '','') parameter"
  show ?thesis
    unfolding parseParameter_def Let_def tokens_def [symmetric] by simp
qed

lemma Generate_context:
  assumes "Generate env fd parameter parsedFiles st error = Some (True, st', error')"
  shows "generatorContext st' =
     (if fd = hd parsedFiles then fst (snd (parseParameter env parameter (generatorContext st) error))
      else generatorContext st)
     \<lparr>files := files (generatorContext st)
        @ records_of env
            (noExclude (if fd = hd parsedFiles then fst (snd (parseParameter env parameter (generatorContext st) error))
                        else generatorContext st)) fd\<rparr>"
  using assms
proof (cases rule: Generate_cases)
  case parse_failed
  then show ?thesis by simp
next
  case (added ctx error1 files')
  from addFile_appends [OF added(4)] added(1,7) show ?thesis
    by (simp add: parseParameter_files)
next
  case (render_called ctx error1 files')
  from addFile_appends [OF render_called(4)] render_called(1) render_effect(1) [OF render_called(6)]
  show ?thesis
    by (simp add: parseParameter_files)
qed

lemma run_context:
  assumes "hd parsedFiles \<notin> set todo"
    and "run env parameter parsedFiles todo st = Some (True, st', error)"
  shows "generatorContext st' =
     (generatorContext st)\<lparr>files := files (generatorContext st)
        @ concat (map (records_of env (noExclude (generatorContext st))) todo)\<rparr>"
  using assms
proof (induction todo arbitrary: st)
  case Nil
  then show ?case by simp
next
  case (Cons fd todo)
  from Cons.prems(2) obtain st1 error1 where
    g: "Generate env fd parameter parsedFiles st [] = Some (True, st1, error1)"
    and r: "run env parameter parsedFiles todo st1 = Some (True, st', error)"
    by (auto split: option.splits if_splits)
  from Cons.prems(1) have "fd \<noteq> hd parsedFiles" and rest: "hd parsedFiles \<notin> set todo"
    by auto
  with Generate_context [OF g] have c1: "generatorContext st1 =
      (generatorContext st)\<lparr>files := files (generatorContext st)
         @ records_of env (noExclude (generatorContext st)) fd\<rparr>"
    by simp
  from Cons.IH [OF rest r] c1 show ?case by simp
qed

lemma run_success:
  assumes d: "distinct parsedFiles" and ne: "parsedFiles \<noteq> []"
    and r: "run env parameter parsedFiles parsedFiles initial_state = Some (True, st, error)"
  shows "render_log st = [files (generatorContext st)]
       \<and> files (generatorContext st)
           = concat (map (records_of env (noExclude (generatorContext st))) parsedFiles)
       \<and> (\<exists>st1 error1.
             run env parameter parsedFiles (butlast parsedFiles) initial_state = Some (True, st1, error1)
             \<and> render_log st1 = [] \<and> written st1 = []
             \<and> Generate env (last parsedFiles) parameter parsedFiles st1 [] = Some (True, st, []))
       \<and> (\<exists>text. written st = [(outputFileName (generatorContext st), text)]
             \<and> (template (generatorContext st) = [] \<longrightarrow>
                  fromVariant env (files (generatorContext st)) = Some text)
             \<and> (template (generatorContext st) \<noteq> [] \<longrightarrow>
                  (\<exists>table. open_file env '':/templates/scalar_value_types.json'' = Inr table
                     \<and> text = rendered (mustache env (template (generatorContext st))
                                   (files (generatorContext st)) (fromJson env table)))))"
proof -
  \<comment> \<open>the calls before the last one\<close>
  from ne have split: "parsedFiles = butlast parsedFiles @ [last parsedFiles]"
    by simp
  have "run env parameter parsedFiles (butlast parsedFiles @ [last parsedFiles]) initial_state
      = Some (True, st, error)"
    using r split by simp
  then obtain st1 error1 where
    before: "run env parameter parsedFiles (butlast parsedFiles) initial_state = Some (True, st1, error1)"
    and final: "run env parameter parsedFiles [last parsedFiles] st1 = Some (True, st, error)"
    by (auto simp: run_append split: option.splits if_splits)
  from final obtain error2 where
    g2: "Generate env (last parsedFiles) parameter parsedFiles st1 [] = Some (True, st, error2)"
    by (auto split: option.splits if_splits)
  from d ne have "last parsedFiles \<notin> set (butlast parsedFiles)"
    by (rule distinct_last_butlast)
  from run_not_last [OF this before] have quiet: "render_log st1 = []" "written st1 = []"
    by (simp_all add: initial_state_def)
  \<comment> \<open>the last call reaches render\<close>
  from g2 obtain st2 where
    rendered2: "render env st2 [] = (True, st, error2)"
    and log2: "render_log st2 = render_log st1" and written2: "written st2 = written st1"
  proof (cases rule: Generate_cases)
    case parse_failed
    then show ?thesis by simp
  next
    case (added ctx error1 files')
    then show ?thesis by simp
  next
    case (render_called ctx error1 files')
    with that [of "st1\<lparr>generatorContext := ctx\<lparr>files := files'\<rparr>\<rparr>"] show ?thesis by simp
  qed
  from render_success(1) [OF rendered2] have "error2 = []" .
  with g2 rendered2 have g: "Generate env (last parsedFiles) parameter parsedFiles st1 [] = Some (True, st, [])"
    and rendered: "render env st2 [] = (True, st, [])"
    by simp_all
  from render_effect(1,2) [OF rendered] quiet log2
  have once: "render_log st = [files (generatorContext st)]"
    by simp
  from render_success(2) [OF rendered] render_effect(1) [OF rendered] quiet written2
  have out: "\<exists>text. written st = [(outputFileName (generatorContext st), text)]
             \<and> (template (generatorContext st) = [] \<longrightarrow>
                  fromVariant env (files (generatorContext st)) = Some text)
             \<and> (template (generatorContext st) \<noteq> [] \<longrightarrow>
                  (\<exists>table. open_file env '':/templates/scalar_value_types.json'' = Inr table
                     \<and> text = rendered (mustache env (template (generatorContext st))
                                   (files (generatorContext st)) (fromJson env table))))"
    by simp
  \<comment> \<open>what the context holds at the end\<close>
  from ne obtain f rest where fr: "parsedFiles = f # rest"
    by (cases parsedFiles) auto
  then have "run env parameter parsedFiles parsedFiles initial_state
      = run env parameter parsedFiles (f # rest) initial_state"
    by simp
  with r have "run env parameter parsedFiles (f # rest) initial_state = Some (True, st, error)"
    by (simp only:)
  then obtain st0 error0 where
    g0: "Generate env f parameter parsedFiles initial_state [] = Some (True, st0, error0)"
    and r0: "run env parameter parsedFiles rest st0 = Some (True, st, error)"
    by (auto split: option.splits if_splits)
  define ctx where "ctx = fst (snd (parseParameter env parameter initial_context []))"
  from Generate_context [OF g0] fr have c0: "generatorContext st0 = ctx\<lparr>files := records_of env (noExclude ctx) f\<rparr>"
    by (simp add: ctx_def initial_state_def initial_context_def parseParameter_files)
  from fr d have "hd parsedFiles \<notin> set rest" by simp
  from run_context [OF this r0] c0
  have acc: "files (generatorContext st)
           = concat (map (records_of env (noExclude (generatorContext st))) parsedFiles)"
    by (simp add: fr)
  from once acc before quiet g out show ?thesis
    by blast
qed


lemma run_render_log:
  assumes d: "distinct parsedFiles" and ne: "parsedFiles \<noteq> []"
    and r: "run env parameter parsedFiles parsedFiles initial_state = Some (ok, st, error)"
  shows "render_log st = [] \<or> render_log st = [files (generatorContext st)]"
proof -
  from ne have split: "parsedFiles = butlast parsedFiles @ [last parsedFiles]"
    by simp
  from d ne have nl: "last parsedFiles \<notin> set (butlast parsedFiles)"
    by (rule distinct_last_butlast)
  have "run env parameter parsedFiles (butlast parsedFiles @ [last parsedFiles]) initial_state
      = Some (ok, st, error)"
    using r split by simp
  then consider
    (early) ok1 error1 where "run env parameter parsedFiles (butlast parsedFiles) initial_state = Some (ok1, st, error1)"
  | (final) st1 error1 ok2 error2 where
      "run env parameter parsedFiles (butlast parsedFiles) initial_state = Some (True, st1, error1)"
      "Generate env (last parsedFiles) parameter parsedFiles st1 [] = Some (ok2, st, error2)"
    by (auto simp: run_append split: option.splits if_splits)
  then show ?thesis
  proof cases
    case early
    from run_not_last [OF nl early] show ?thesis
      by (simp add: initial_state_def)
  next
    case final
    from run_not_last [OF nl final(1)] have quiet: "render_log st1 = []"
      by (simp add: initial_state_def)
    from final(2) show ?thesis
    proof (cases rule: Generate_cases)
      case parse_failed
      with quiet show ?thesis by simp
    next
      case (added ctx error1 files')
      with quiet show ?thesis by simp
    next
      case (render_called ctx error1 files')
      from render_effect(1,2) [OF render_called(6)] quiet show ?thesis by simp
    qed
  qed
qed

text \<open>
  A run in which nothing fails: each call but the last adds the records of its
  file, and the last call adds them and renders.
\<close>

lemma addFile_opened:
  assumes "readable env fd"
  shows "addFile env ne fd acc error = Some (acc @ records_of env ne fd, error)"
  using assms
  by (auto simp: readable_def addFile_def records_of_def descriptionOf_file_def split: sum.splits)

lemma Generate_adds:
  assumes "parsedFiles \<noteq> []" and "fd \<noteq> last parsedFiles" and "readable env fd"
    and "fd = hd parsedFiles \<Longrightarrow> parseParameter env parameter (generatorContext st) [] = (True, c, [])"
    and "fd \<noteq> hd parsedFiles \<Longrightarrow> generatorContext st = c"
  shows "Generate env fd parameter parsedFiles st [] =
     Some (True, st\<lparr>generatorContext := c\<lparr>files := files c @ records_of env (noExclude c) fd\<rparr>\<rparr>, [])"
proof (cases "fd = hd parsedFiles")
  case True
  with assms(1,2) assms(4) [OF True] addFile_opened [OF assms(3), of "noExclude c" "files c" "[]"]
  show ?thesis
    by (simp add: Generate_def Let_def)
next
  case False
  with assms(1,2) assms(5) [OF False] addFile_opened [OF assms(3), of "noExclude c" "files c" "[]"]
  show ?thesis
    by (simp add: Generate_def Let_def)
qed

lemma Generate_renders:
  assumes "parsedFiles \<noteq> []" and "fd = last parsedFiles" and "readable env fd"
    and "fd = hd parsedFiles \<Longrightarrow> parseParameter env parameter (generatorContext st) [] = (True, c, [])"
    and "fd \<noteq> hd parsedFiles \<Longrightarrow> generatorContext st = c"
  shows "Generate env fd parameter parsedFiles st [] =
     Some (render env (st\<lparr>generatorContext := c\<lparr>files := files c @ records_of env (noExclude c) fd\<rparr>\<rparr>) [])"
proof (cases "fd = hd parsedFiles")
  case True
  with assms(1,2) assms(4) [OF True] addFile_opened [OF assms(3), of "noExclude c" "files c" "[]"]
  show ?thesis
    by (simp add: Generate_def Let_def)
next
  case False
  with assms(1,2) assms(5) [OF False] addFile_opened [OF assms(3), of "noExclude c" "files c" "[]"]
  show ?thesis
    by (simp add: Generate_def Let_def)
qed

lemma run_adds:
  assumes "parsedFiles \<noteq> []" and "hd parsedFiles \<notin> set todo" and "last parsedFiles \<notin> set todo"
    and "\<forall>fd \<in> set todo. readable env fd"
  shows "run env parameter parsedFiles todo st =
     Some (True,
           st\<lparr>generatorContext := (generatorContext st)
                \<lparr>files := files (generatorContext st)
                   @ all_records env (noExclude (generatorContext st)) todo\<rparr>\<rparr>, [])"
  using assms(2,3,4)
proof (induction todo arbitrary: st)
  case Nil
  show ?case by (simp add: all_records_def)
next
  case (Cons fd todo)
  let ?c = "generatorContext st"
  let ?st1 = "st\<lparr>generatorContext := ?c\<lparr>files := files ?c @ records_of env (noExclude ?c) fd\<rparr>\<rparr>"
  have g: "Generate env fd parameter parsedFiles st [] = Some (True, ?st1, [])"
    using Cons.prems by (intro Generate_adds assms(1)) auto
  have r: "run env parameter parsedFiles todo ?st1 =
     Some (True,
           ?st1\<lparr>generatorContext := (generatorContext ?st1)
                \<lparr>files := files (generatorContext ?st1)
                   @ all_records env (noExclude (generatorContext ?st1)) todo\<rparr>\<rparr>, [])"
    using Cons.prems by (intro Cons.IH) auto
  show ?case
    by (simp add: g r all_records_def)
qed

lemma render_succeeds:
  assumes "template (generatorContext st) = [] \<longrightarrow> fromVariant env (files (generatorContext st)) = Some text"
    and "template (generatorContext st) \<noteq> [] \<longrightarrow>
           open_file env '':/templates/scalar_value_types.json'' = Inr table
           \<and> renderer_error (mustache env (template (generatorContext st)) (files (generatorContext st))
                 (fromJson env table)) = []
           \<and> text = rendered (mustache env (template (generatorContext st)) (files (generatorContext st))
                 (fromJson env table))"
  shows "render env st error =
     (True, st\<lparr>render_log := render_log st @ [files (generatorContext st)],
              written := written st @ [(outputFileName (generatorContext st), text)]\<rparr>, error)"
  using assms by (cases "template (generatorContext st) = []") (simp_all add: render_def Let_def)

lemma run_renders_once:
  assumes d: "distinct parsedFiles" and ne: "parsedFiles \<noteq> []"
    and parsed: "parseParameter env parameter initial_context [] = (True, ctx, [])"
    and readable: "\<forall>fd \<in> set parsedFiles. readable env fd"
    and json: "template ctx = [] \<longrightarrow>
          fromVariant env (all_records env (noExclude ctx) parsedFiles) = Some text"
    and engine: "template ctx \<noteq> [] \<longrightarrow>
          open_file env '':/templates/scalar_value_types.json'' = Inr table
          \<and> renderer_error (mustache env (template ctx) (all_records env (noExclude ctx) parsedFiles)
                (fromJson env table)) = []
          \<and> text = rendered (mustache env (template ctx) (all_records env (noExclude ctx) parsedFiles)
                (fromJson env table))"
  shows "\<exists>st1. run env parameter parsedFiles (butlast parsedFiles) initial_state = Some (True, st1, [])
           \<and> render_log st1 = [] \<and> written st1 = []
           \<and> Generate env (last parsedFiles) parameter parsedFiles st1 [] =
               Some (True,
                     \<lparr>generatorContext = ctx\<lparr>files := all_records env (noExclude ctx) parsedFiles\<rparr>,
                      written = [(outputFileName ctx, text)],
                      render_log = [all_records env (noExclude ctx) parsedFiles]\<rparr>, [])"
proof -
  define final where "final =
     \<lparr>generatorContext = ctx\<lparr>files := all_records env (noExclude ctx) parsedFiles\<rparr>,
      written = [(outputFileName ctx, text)],
      render_log = [all_records env (noExclude ctx) parsedFiles]\<rparr>"
  define l where "l = last parsedFiles"
  have no_files: "files ctx = []"
    using parseParameter_files [of env parameter initial_context "[]"] parsed
    by (simp add: initial_context_def)
  have split: "parsedFiles = butlast parsedFiles @ [l]"
    using ne by (simp add: l_def)
  have l_readable: "readable env l"
    using readable ne by (simp add: l_def)
  have l_new: "l \<notin> set (butlast parsedFiles)"
    unfolding l_def using d ne by (rule distinct_last_butlast)
  \<comment> \<open>the state in which the last file is added, and render on it\<close>
  have rendering: "render env
      (st\<lparr>generatorContext := c\<lparr>files := files c @ records_of env (noExclude c) l\<rparr>\<rparr>) [] = (True, final, [])"
    if c: "c = ctx\<lparr>files := all_records env (noExclude ctx) (butlast parsedFiles)\<rparr>"
      and quiet: "written st = []" "render_log st = []"
    for st c
  proof -
    have "all_records env (noExclude ctx) (butlast parsedFiles @ [l])
        = all_records env (noExclude ctx) (butlast parsedFiles) @ records_of env (noExclude ctx) l"
      by (simp add: all_records_def)
    then have "all_records env (noExclude ctx) parsedFiles
        = all_records env (noExclude ctx) (butlast parsedFiles) @ records_of env (noExclude ctx) l"
      by (simp only: split [symmetric])
    then have all: "all_records env (noExclude ctx) (butlast parsedFiles) @ records_of env (noExclude ctx) l
        = all_records env (noExclude ctx) parsedFiles"
      by (rule sym)
    let ?st = "st\<lparr>generatorContext := c\<lparr>files := files c @ records_of env (noExclude c) l\<rparr>\<rparr>"
    have whole_context: "generatorContext ?st = ctx\<lparr>files := all_records env (noExclude ctx) parsedFiles\<rparr>"
      by (simp add: c all)
    have "render env ?st [] =
       (True, ?st\<lparr>render_log := render_log ?st @ [files (generatorContext ?st)],
                written := written ?st @ [(outputFileName (generatorContext ?st), text)]\<rparr>, [])"
      using json engine by (intro render_succeeds [where table = table]) (simp_all only: whole_context, simp_all)
    also have "?st\<lparr>render_log := render_log ?st @ [files (generatorContext ?st)],
                written := written ?st @ [(outputFileName (generatorContext ?st), text)]\<rparr> = final"
      unfolding whole_context by (simp add: final_def quiet c all)
    finally show ?thesis .
  qed
  show ?thesis
  proof (cases "butlast parsedFiles")
    case Nil
    with split have single: "parsedFiles = [l]" by simp
    have first: "l = hd parsedFiles" "l = last parsedFiles"
      by (subst single, simp) (rule l_def)
    have "Generate env l parameter parsedFiles initial_state [] =
       Some (render env (initial_state\<lparr>generatorContext := ctx\<lparr>files := files ctx @ records_of env (noExclude ctx) l\<rparr>\<rparr>) [])"
    proof (rule Generate_renders [OF ne first(2) l_readable])
      show "parseParameter env parameter (generatorContext initial_state) [] = (True, ctx, [])"
        using parsed by (simp add: initial_state_def)
      show "generatorContext initial_state = ctx" if "l \<noteq> hd parsedFiles"
        using that first(1) by simp
    qed
    also have "render env (initial_state\<lparr>generatorContext := ctx\<lparr>files := files ctx @ records_of env (noExclude ctx) l\<rparr>\<rparr>) []
        = (True, final, [])"
      by (rule rendering) (simp_all add: Nil all_records_def no_files initial_state_def)
    finally have "Generate env (last parsedFiles) parameter parsedFiles initial_state [] = Some (True, final, [])"
      by (simp only: l_def)
    moreover have "run env parameter parsedFiles (butlast parsedFiles) initial_state = Some (True, initial_state, [])"
      by (simp add: Nil)
    ultimately show ?thesis
      unfolding final_def by (intro exI [of _ initial_state]) (simp add: initial_state_def)
  next
    case (Cons f mid)
    with split have whole: "parsedFiles = f # mid @ [l]" by simp
    from whole d have distinct: "f \<noteq> l" "f \<notin> set mid" "l \<notin> set mid"
      by auto
    have hd: "hd parsedFiles = f"
      by (subst whole) simp
    have last: "last parsedFiles = l"
      by (simp add: l_def)
    define st0 where "st0 = initial_state\<lparr>generatorContext := ctx\<lparr>files := files ctx @ records_of env (noExclude ctx) f\<rparr>\<rparr>"
    have f_in: "f \<in> set parsedFiles"
      by (subst whole) simp
    have mid_in: "\<forall>fd \<in> set mid. fd \<in> set parsedFiles"
      by (subst whole) simp
    from readable f_in have f_readable: "readable env f"
      by (rule bspec)
    have mid_readable: "\<forall>fd \<in> set mid. readable env fd"
    proof
      fix fd
      assume "fd \<in> set mid"
      with mid_in have "fd \<in> set parsedFiles" by (rule bspec)
      with readable show "readable env fd" by (rule bspec)
    qed
    have g0: "Generate env f parameter parsedFiles initial_state [] = Some (True, st0, [])"
      unfolding st0_def
    proof (rule Generate_adds [OF ne _ f_readable])
      show "f \<noteq> last parsedFiles"
        using distinct(1) last by simp
      show "parseParameter env parameter (generatorContext initial_state) [] = (True, ctx, [])"
        using parsed by (simp add: initial_state_def)
      show "generatorContext initial_state = ctx" if "f \<noteq> hd parsedFiles"
        using that hd by simp
    qed
    define st1 where "st1 = st0\<lparr>generatorContext := (generatorContext st0)
                \<lparr>files := files (generatorContext st0)
                   @ all_records env (noExclude (generatorContext st0)) mid\<rparr>\<rparr>"
    have r1: "run env parameter parsedFiles mid st0 = Some (True, st1, [])"
      unfolding st1_def
    proof (rule run_adds [OF ne _ _ mid_readable])
      show "hd parsedFiles \<notin> set mid"
        using distinct(2) hd by simp
      show "last parsedFiles \<notin> set mid"
        using distinct(3) last by simp
    qed
    have before: "run env parameter parsedFiles (butlast parsedFiles) initial_state = Some (True, st1, [])"
      by (simp add: Cons g0 r1)
    have c1: "generatorContext st1 = ctx\<lparr>files := all_records env (noExclude ctx) (butlast parsedFiles)\<rparr>"
      by (simp add: st1_def st0_def Cons all_records_def no_files)
    have quiet: "written st1 = []" "render_log st1 = []"
      by (simp_all add: st1_def st0_def initial_state_def)
    have "Generate env l parameter parsedFiles st1 [] =
       Some (render env (st1\<lparr>generatorContext := (generatorContext st1)
          \<lparr>files := files (generatorContext st1) @ records_of env (noExclude (generatorContext st1)) l\<rparr>\<rparr>) [])"
    proof (rule Generate_renders [OF ne _ l_readable])
      show "l = last parsedFiles"
        by (rule l_def)
      show "parseParameter env parameter (generatorContext st1) [] = (True, generatorContext st1, [])"
        if "l = hd parsedFiles"
        using that hd distinct(1) by simp
      show "generatorContext st1 = generatorContext st1" if "l \<noteq> hd parsedFiles"
        by (rule refl)
    qed
    also have "render env (st1\<lparr>generatorContext := (generatorContext st1)
          \<lparr>files := files (generatorContext st1) @ records_of env (noExclude (generatorContext st1)) l\<rparr>\<rparr>) []
        = (True, final, [])"
      using c1 quiet by (rule rendering)
    finally have "Generate env (last parsedFiles) parameter parsedFiles st1 [] = Some (True, final, [])"
      by (simp only: l_def)
    with before quiet show ?thesis
      unfolding final_def by (intro exI [of _ st1]) simp
  qed
qed

lemma run_total:
  assumes "run env parameter parsedFiles (butlast parsedFiles) initial_state = Some (True, st1, [])"
    and "Generate env (last parsedFiles) parameter parsedFiles st1 [] = Some (True, final, [])"
    and "parsedFiles \<noteq> []"
  shows "run env parameter parsedFiles parsedFiles initial_state = Some (True, final, [])"
proof -
  have "run env parameter parsedFiles (butlast parsedFiles @ [last parsedFiles]) initial_state
      = Some (True, final, [])"
    using assms(1,2) by (simp add: run_append)
  with assms(3) show ?thesis by simp
qed

text \<open>
  C2, as stated, at the list that holds the file \<open>a.proto\<close> twice: the file
  is the last element of the list at both calls, so render is called twice and
  the output file is opened twice. And in the run with the configuration string
  \<open>html\<close> over two files, which does not parse, render is not called.
\<close>

theorem render_twice_for_repeated_file:
  "map_option (\<lambda>(ok, st, error). (ok, length (render_log st), map fst (written st)))
     (run example_env ''json,out.json'' [example_file ''a.proto'', example_file ''a.proto'']
        [example_file ''a.proto'', example_file ''a.proto''] initial_state)
   = Some (True, 2, [''out.json'', ''out.json''])
   \<and> map_option (\<lambda>(ok, st, error). (ok, length (render_log st), map fst (written st)))
     (run example_env ''html'' [example_file ''a.proto'', example_file ''b.proto'']
        [example_file ''a.proto'', example_file ''b.proto''] initial_state)
   = Some (False, 0, [])"
  by (simp add: evaluation)

text \<open>
  C2, amended. Take a run over a list of distinct files, one call of Generate
  per file. If nothing fails (the configuration string parses and the template
  is read, every file opens and its scan for the description ends, and the
  JSON document or the rendering of the template is made without error), the
  run returns true, and render was called exactly once, by the call for the
  last file, on the records of all the files of the list in order; the calls
  before it neither render nor write; the one artifact written, under the
  configured output name, is the text made from that list. Whether anything
  fails or not, render is called at most once, and never before the call for
  the last file.
\<close>

theorem render_once_on_last_file:
  assumes "distinct parsedFiles" and "parsedFiles \<noteq> []"
  shows "(parseParameter env parameter initial_context [] = (True, ctx, [])
          \<and> (\<forall>fd \<in> set parsedFiles. readable env fd)
          \<and> (template ctx = [] \<longrightarrow>
                fromVariant env (all_records env (noExclude ctx) parsedFiles) = Some text)
          \<and> (template ctx \<noteq> [] \<longrightarrow>
                open_file env '':/templates/scalar_value_types.json'' = Inr table
                \<and> renderer_error (mustache env (template ctx) (all_records env (noExclude ctx) parsedFiles)
                      (fromJson env table)) = []
                \<and> text = rendered (mustache env (template ctx) (all_records env (noExclude ctx) parsedFiles)
                      (fromJson env table))) \<longrightarrow>
            run env parameter parsedFiles parsedFiles initial_state =
              Some (True,
                    \<lparr>generatorContext = ctx\<lparr>files := all_records env (noExclude ctx) parsedFiles\<rparr>,
                     written = [(outputFileName ctx, text)],
                     render_log = [all_records env (noExclude ctx) parsedFiles]\<rparr>, [])
            \<and> (\<exists>st1. run env parameter parsedFiles (butlast parsedFiles) initial_state = Some (True, st1, [])
                  \<and> render_log st1 = [] \<and> written st1 = []
                  \<and> Generate env (last parsedFiles) parameter parsedFiles st1 [] =
                      Some (True,
                            \<lparr>generatorContext = ctx\<lparr>files := all_records env (noExclude ctx) parsedFiles\<rparr>,
                             written = [(outputFileName ctx, text)],
                             render_log = [all_records env (noExclude ctx) parsedFiles]\<rparr>, [])))
       \<and> (run env parameter parsedFiles parsedFiles initial_state = Some (ok, st', error') \<longrightarrow>
            render_log st' = [] \<or> render_log st' = [files (generatorContext st')])
       \<and> (\<forall>ok1 st1 error1.
            run env parameter parsedFiles (butlast parsedFiles) initial_state = Some (ok1, st1, error1) \<longrightarrow>
              render_log st1 = [] \<and> written st1 = [])"
proof -
  let ?final = "\<lparr>generatorContext = ctx\<lparr>files := all_records env (noExclude ctx) parsedFiles\<rparr>,
                     written = [(outputFileName ctx, text)],
                     render_log = [all_records env (noExclude ctx) parsedFiles]\<rparr>"
  let ?last_call = "\<exists>st1. run env parameter parsedFiles (butlast parsedFiles) initial_state = Some (True, st1, [])
                  \<and> render_log st1 = [] \<and> written st1 = []
                  \<and> Generate env (last parsedFiles) parameter parsedFiles st1 [] = Some (True, ?final, [])"
  have total: "parseParameter env parameter initial_context [] = (True, ctx, [])
          \<and> (\<forall>fd \<in> set parsedFiles. readable env fd)
          \<and> (template ctx = [] \<longrightarrow>
                fromVariant env (all_records env (noExclude ctx) parsedFiles) = Some text)
          \<and> (template ctx \<noteq> [] \<longrightarrow>
                open_file env '':/templates/scalar_value_types.json'' = Inr table
                \<and> renderer_error (mustache env (template ctx) (all_records env (noExclude ctx) parsedFiles)
                      (fromJson env table)) = []
                \<and> text = rendered (mustache env (template ctx) (all_records env (noExclude ctx) parsedFiles)
                      (fromJson env table))) \<longrightarrow>
            run env parameter parsedFiles parsedFiles initial_state = Some (True, ?final, [])
            \<and> ?last_call"
  proof (rule impI, elim conjE)
    assume parsed: "parseParameter env parameter initial_context [] = (True, ctx, [])"
      and readable: "\<forall>fd \<in> set parsedFiles. readable env fd"
      and json: "template ctx = [] \<longrightarrow>
                fromVariant env (all_records env (noExclude ctx) parsedFiles) = Some text"
      and engine: "template ctx \<noteq> [] \<longrightarrow>
                open_file env '':/templates/scalar_value_types.json'' = Inr table
                \<and> renderer_error (mustache env (template ctx) (all_records env (noExclude ctx) parsedFiles)
                      (fromJson env table)) = []
                \<and> text = rendered (mustache env (template ctx) (all_records env (noExclude ctx) parsedFiles)
                      (fromJson env table))"
    have last_call: ?last_call
      using assms parsed readable json engine by (rule run_renders_once)
    then obtain st1 where
      "run env parameter parsedFiles (butlast parsedFiles) initial_state = Some (True, st1, [])"
      and "Generate env (last parsedFiles) parameter parsedFiles st1 [] = Some (True, ?final, [])"
      by (elim exE conjE)
    then have "run env parameter parsedFiles parsedFiles initial_state = Some (True, ?final, [])"
      using assms(2) by (rule run_total)
    then show "run env parameter parsedFiles parsedFiles initial_state = Some (True, ?final, [])
            \<and> ?last_call"
      using last_call by (rule conjI)
  qed
  have at_most_once: "run env parameter parsedFiles parsedFiles initial_state = Some (ok, st', error') \<longrightarrow>
            render_log st' = [] \<or> render_log st' = [files (generatorContext st')]"
  proof (rule impI)
    assume "run env parameter parsedFiles parsedFiles initial_state = Some (ok, st', error')"
    with assms show "render_log st' = [] \<or> render_log st' = [files (generatorContext st')]"
      by (rule run_render_log)
  qed
  have not_before: "\<forall>ok1 st1 error1.
            run env parameter parsedFiles (butlast parsedFiles) initial_state = Some (ok1, st1, error1) \<longrightarrow>
              render_log st1 = [] \<and> written st1 = []"
  proof (intro allI impI)
    fix ok1 st1 error1
    assume before: "run env parameter parsedFiles (butlast parsedFiles) initial_state = Some (ok1, st1, error1)"
    from assms have "last parsedFiles \<notin> set (butlast parsedFiles)"
      by (rule distinct_last_butlast)
    from run_not_last [OF this before] show "render_log st1 = [] \<and> written st1 = []"
      by (simp add: initial_state_def)
  qed
  show ?thesis
    by (rule conjI [OF total conjI [OF at_most_once not_before]])
qed

theorem render_once_on_last_file_witness:
  "run template_env ''html,index.html''
       [example_file ''a.proto'', example_file ''b.proto'', example_file ''c.proto'']
       [example_file ''a.proto'', example_file ''b.proto'', example_file ''c.proto''] initial_state
     = Some (True,
             \<lparr>generatorContext =
                \<lparr>template = ''{{#files}}{{file_name}}{{/files}}'', outputFileName = ''index.html'', noExclude = False,
                 files = all_records template_env False
                   [example_file ''a.proto'', example_file ''b.proto'', example_file ''c.proto'']\<rparr>,
              written = [(''index.html'', ''text'')],
              render_log = [all_records template_env False
                   [example_file ''a.proto'', example_file ''b.proto'', example_file ''c.proto'']]\<rparr>, [])
   \<and> map (\<lambda>file. toString (lookup (toHash file) ''file_name''))
        (all_records template_env False [example_file ''a.proto'', example_file ''b.proto'', example_file ''c.proto''])
      = [''a.proto'', ''b.proto'', ''c.proto'']"
proof -
  let ?files = "[example_file ''a.proto'', example_file ''b.proto'', example_file ''c.proto'']"
  let ?ctx = "\<lparr>template = ''{{#files}}{{file_name}}{{/files}}'', outputFileName = ''index.html'',
               noExclude = False, files = []\<rparr>"
  have d: "distinct ?files" and ne: "?files \<noteq> []"
    by (simp_all add: example_file_def)
  have parsed: "parseParameter template_env ''html,index.html'' initial_context [] = (True, ?ctx, [])"
    by (simp add: parseParameter_def readTemplate_def template_env_def example_env_def initial_context_def
        arg_evaluation)
  have readable: "\<forall>fd \<in> set ?files. readable template_env fd"
    by (simp add: readable_def template_env_def example_env_def example_file_def scan.simps)
  have json: "template ?ctx = [] \<longrightarrow>
      fromVariant template_env (all_records template_env (noExclude ?ctx) ?files) = Some ''text''"
    by simp
  have engine: "template ?ctx \<noteq> [] \<longrightarrow>
      open_file template_env '':/templates/scalar_value_types.json'' = Inr []
      \<and> renderer_error (mustache template_env (template ?ctx) (all_records template_env (noExclude ?ctx) ?files)
            (fromJson template_env [])) = []
      \<and> ''text'' = rendered (mustache template_env (template ?ctx) (all_records template_env (noExclude ?ctx) ?files)
            (fromJson template_env []))"
    by (simp add: template_env_def example_env_def)
  from render_once_on_last_file [OF d ne, THEN conjunct1, THEN mp, OF conjI [OF parsed conjI [OF readable conjI [OF json engine]]],
      THEN conjunct1]
  have run: "run template_env ''html,index.html'' ?files ?files initial_state
     = Some (True,
             \<lparr>generatorContext =
                \<lparr>template = ''{{#files}}{{file_name}}{{/files}}'', outputFileName = ''index.html'', noExclude = False,
                 files = all_records template_env False ?files\<rparr>,
              written = [(''index.html'', ''text'')],
              render_log = [all_records template_env False ?files]\<rparr>, [])"
    by simp
  have names: "map (\<lambda>file. toString (lookup (toHash file) ''file_name''))
        (all_records template_env False ?files) = [''a.proto'', ''b.proto'', ''c.proto'']"
    by (simp add: all_records_def records_of_def template_env_def evaluation toString_def lookup_def toHash_def)
  from run names show ?thesis
    by (rule conjI)
qed

subsection \<open>The description of a file\<close>

lemma readLine_line: "CHR 0x0A \<notin> set l \<Longrightarrow> readLine (l @ CHR 0x0A # rest) = (l, rest)"
  by (induction l) (auto simp: readLine_def)

lemma slash_loop_step:
  assumes "CHR 0x0A \<notin> set l" and "startsWith line ''///''"
  shows "slash_loop line (l @ CHR 0x0A # rest) description =
         slash_loop (trimmed l) rest
           (description @ mid line (if startsWith line ''/// '' then 4 else 3) @ [CHR 0x0A])"
  using assms by (subst slash_loop.simps) (simp add: readLine_line)

lemma slash_loop_at_end: "slash_loop line [] description = description"
  by (subst slash_loop.simps) simp

lemma slash_loop_other: "\<not> startsWith line ''///'' \<Longrightarrow> slash_loop line stream description = description"
  by (subst slash_loop.simps) simp

lemma slash_loop_lines:
  assumes "\<forall>l\<in>set (l0 # ls). is_slash_line l"
  shows "slash_loop (trimmed l0) (terminated_lines ls @ after) description =
         slash_loop (trimmed (last (l0 # ls))) after
           (description @ concat (map (\<lambda>l. slash_text l @ [CHR 0x0A]) (butlast (l0 # ls))))"
  using assms
proof (induction ls arbitrary: l0 description)
  case Nil
  then show ?case by (simp add: terminated_lines_def)
next
  case (Cons m ms)
  from Cons.prems have m: "CHR 0x0A \<notin> set m" and l0: "startsWith (trimmed l0) ''///''"
    and rest: "\<forall>l\<in>set (m # ms). is_slash_line l"
    by (simp_all add: is_slash_line_def)
  have "slash_loop (trimmed l0) (terminated_lines (m # ms) @ after) description =
        slash_loop (trimmed m) (terminated_lines ms @ after)
          (description @ mid (trimmed l0) (if startsWith (trimmed l0) ''/// '' then 4 else 3) @ [CHR 0x0A])"
    using slash_loop_step [OF m l0] by (simp add: terminated_lines_def)
  also have "\<dots> = slash_loop (trimmed (last (m # ms))) after
          ((description @ mid (trimmed l0) (if startsWith (trimmed l0) ''/// '' then 4 else 3) @ [CHR 0x0A])
           @ concat (map (\<lambda>l. slash_text l @ [CHR 0x0A]) (butlast (m # ms))))"
    by (rule Cons.IH [OF rest])
  finally show ?case
    by (simp add: slash_text_def)
qed

lemma join_cons: "ys \<noteq> [] \<Longrightarrow> QStringList_join sep (y # ys) = y @ sep @ QStringList_join sep ys"
  by (cases ys) simp_all

lemma join_terminated:
  "QStringList_join [c] (map f xs @ [y]) = concat (map (\<lambda>x. f x @ [c]) xs) @ y"
  by (induction xs) (simp_all add: join_cons)

lemma left_drop_newline:
  "xs \<noteq> [] \<Longrightarrow>
   left (concat (map (\<lambda>x. f x @ [c]) xs)) (int (length (concat (map (\<lambda>x. f x @ [c]) xs))) - 1)
     = QStringList_join [c] (map f xs)"
proof (induction xs rule: rev_induct)
  case Nil
  then show ?case by simp
next
  case (snoc x xs)
  show ?case
    by (simp add: left_def join_terminated)
qed

lemma left_empty: "left [] (int (length ([] :: string)) - 1) = []"
  by (simp add: left_def)

lemma startsWith_nonempty: "startsWith s p \<Longrightarrow> p \<noteq> [] \<Longrightarrow> s \<noteq> []"
  by (auto simp: startsWith_def)

lemma scan_slash_first:
  assumes "is_slash_line l0"
  shows "scan (l0 @ CHR 0x0A # rest) description =
           Some (left (slash_loop (trimmed l0) rest description)
                   (int (length (slash_loop (trimmed l0) rest description)) - 1))"
proof -
  from assms have nl: "CHR 0x0A \<notin> set l0" and sl: "startsWith (trimmed l0) ''///''"
    by (simp_all add: is_slash_line_def)
  from sl have "trimmed l0 \<noteq> []"
    by (rule startsWith_nonempty) simp
  with nl sl show ?thesis
    by (subst scan.simps) (simp add: readLine_line Let_def)
qed

lemma scan_blank_lines:
  "\<forall>b\<in>set bs. CHR 0x0A \<notin> set b \<and> trimmed b = [] \<Longrightarrow>
   scan (terminated_lines bs @ s) description = scan s description"
proof (induction bs)
  case Nil
  then show ?case by (simp add: terminated_lines_def)
next
  case (Cons b bs)
  then have b: "CHR 0x0A \<notin> set b" "trimmed b = []"
    and IH: "scan (terminated_lines bs @ s) description = scan s description"
    by simp_all
  have "scan (terminated_lines (b # bs) @ s) description
      = scan (b @ CHR 0x0A # (terminated_lines bs @ s)) description"
    by (simp add: terminated_lines_def)
  also have "\<dots> = scan (terminated_lines bs @ s) description"
    using b by (subst scan.simps) (simp add: readLine_line Let_def)
  finally show ?case using IH by simp
qed

lemma scan_no_comment:
  assumes "s = [] \<or> trimmed (fst (readLine s)) \<noteq> []"
    and "\<not> startsWith (trimmed (fst (readLine s))) ''///''"
    and "\<not> (startsWith (trimmed (fst (readLine s))) ''/**'' \<and> \<not> startsWith (trimmed (fst (readLine s))) ''/***/'')"
  shows "scan s description = Some description"
  using assms by (subst scan.simps) (auto simp: Let_def)

lemma scan_slash_lines_to_end:
  assumes "ls \<noteq> []" and all: "\<forall>l\<in>set ls. is_slash_line l"
  shows "scan (terminated_lines ls) [] = Some (QStringList_join [CHR 0x0A] (map slash_text (butlast ls)))"
proof -
  from assms(1) obtain l0 ls' where ls: "ls = l0 # ls'"
    by (cases ls) auto
  with all have l0: "is_slash_line l0" by simp
  have loop: "slash_loop (trimmed l0) (terminated_lines ls' @ []) [] =
         slash_loop (trimmed (last (l0 # ls'))) []
           ([] @ concat (map (\<lambda>l. slash_text l @ [CHR 0x0A]) (butlast (l0 # ls'))))"
    using all unfolding ls by (rule slash_loop_lines)
  then have d: "slash_loop (trimmed l0) (terminated_lines ls') [] =
      concat (map (\<lambda>l. slash_text l @ [CHR 0x0A]) (butlast ls))"
    by (simp add: slash_loop_at_end ls)
  have "scan (terminated_lines ls) [] = scan (l0 @ CHR 0x0A # terminated_lines ls') []"
    by (simp add: ls terminated_lines_def)
  also have "\<dots> = Some (left (concat (map (\<lambda>l. slash_text l @ [CHR 0x0A]) (butlast ls)))
                   (int (length (concat (map (\<lambda>l. slash_text l @ [CHR 0x0A]) (butlast ls)))) - 1))"
    by (simp add: scan_slash_first [OF l0] d)
  also have "\<dots> = Some (QStringList_join [CHR 0x0A] (map slash_text (butlast ls)))"
  proof (cases "butlast ls = []")
    case True
    then show ?thesis by (simp add: left_def)
  next
    case False
    then show ?thesis by (simp add: left_drop_newline)
  qed
  finally show ?thesis .
qed

lemma scan_three_lines:
  assumes l1: "is_slash_line l1" and l2: "is_slash_line l2" and l3: "is_slash_line l3"
    and after: "after \<noteq> []" and blank: "trimmed (fst (readLine after)) = []"
  shows "scan (l1 @ [CHR 0x0A] @ l2 @ [CHR 0x0A] @ l3 @ [CHR 0x0A] @ after) [] =
         Some (slash_text l1 @ [CHR 0x0A] @ slash_text l2 @ [CHR 0x0A] @ slash_text l3)"
proof -
  have all: "\<forall>l\<in>set (l1 # [l2, l3]). is_slash_line l"
    using l1 l2 l3 by simp
  have "slash_loop (trimmed l1) (terminated_lines [l2, l3] @ after) [] =
         slash_loop (trimmed (last (l1 # [l2, l3]))) after
           ([] @ concat (map (\<lambda>l. slash_text l @ [CHR 0x0A]) (butlast (l1 # [l2, l3]))))"
    using all by (rule slash_loop_lines)
  then have "slash_loop (trimmed l1) (terminated_lines [l2, l3] @ after) [] =
         slash_loop (trimmed l3) after (slash_text l1 @ [CHR 0x0A] @ slash_text l2 @ [CHR 0x0A])"
    by simp
  also have "\<dots> = slash_loop (trimmed (fst (readLine after))) (snd (readLine after))
         ((slash_text l1 @ [CHR 0x0A] @ slash_text l2 @ [CHR 0x0A]) @ slash_text l3 @ [CHR 0x0A])"
    using after l3 by (subst slash_loop.simps) (simp add: is_slash_line_def slash_text_def)
  also have "\<dots> = (slash_text l1 @ [CHR 0x0A] @ slash_text l2 @ [CHR 0x0A]) @ slash_text l3 @ [CHR 0x0A]"
    using blank by (simp add: slash_loop_other startsWith_def)
  finally have d: "slash_loop (trimmed l1) (l2 @ CHR 0x0A # l3 @ CHR 0x0A # after) [] =
      concat (map (\<lambda>l. slash_text l @ [CHR 0x0A]) [l1, l2, l3])"
    by (simp add: terminated_lines_def)
  have "scan (l1 @ CHR 0x0A # (l2 @ CHR 0x0A # l3 @ CHR 0x0A # after)) [] =
      Some (left (concat (map (\<lambda>l. slash_text l @ [CHR 0x0A]) [l1, l2, l3]))
                   (int (length (concat (map (\<lambda>l. slash_text l @ [CHR 0x0A]) [l1, l2, l3]))) - 1))"
    by (simp only: scan_slash_first [OF l1] d)
  also have "\<dots> = Some (QStringList_join [CHR 0x0A] (map slash_text [l1, l2, l3]))"
    by (subst left_drop_newline) simp_all
  finally show ?thesis by simp
qed

lemma descriptionOf_file_scanned:
  assumes "open_file env (file_name fd) = Inr text" and "scan text [] = Some description"
  shows "descriptionOf_file env ne fd error excluded
           = Some (fst (check_excluded ne description), error, snd (check_excluded ne description))"
  using assms by (simp add: descriptionOf_file_def)

lemma check_excluded_plain:
  "trimmed description = description \<Longrightarrow> \<not> startsWith description ''@exclude'' \<Longrightarrow>
   check_excluded ne description = (description, False)"
  by (simp add: check_excluded_def Let_def)

text \<open>
  C7. For a text whose first three lines are /// comments and whose fourth
  line is blank, the scan gives the texts of the three lines joined with line
  feeds, without a line feed at the end, and descriptionOf makes the
  description of it (it is the description itself when it is trimmed and does
  not start with the marker). For a text whose first line that is not blank is
  no documentation comment, or that has no such line, the description is empty.
\<close>

theorem whole_file_three_comment_lines:
  assumes "is_slash_line l1" and "is_slash_line l2" and "is_slash_line l3"
    and "after \<noteq> []" and "trimmed (fst (readLine after)) = []"
    and "\<forall>b\<in>set bs. CHR 0x0A \<notin> set b \<and> trimmed b = []"
    and "s = [] \<or> trimmed (fst (readLine s)) \<noteq> []"
    and "\<not> startsWith (trimmed (fst (readLine s))) ''///''"
    and "\<not> (startsWith (trimmed (fst (readLine s))) ''/**''
            \<and> \<not> startsWith (trimmed (fst (readLine s))) ''/***/'')"
  shows "scan (l1 @ [CHR 0x0A] @ l2 @ [CHR 0x0A] @ l3 @ [CHR 0x0A] @ after) []
           = Some (slash_text l1 @ [CHR 0x0A] @ slash_text l2 @ [CHR 0x0A] @ slash_text l3)
       \<and> (open_file env (file_name fd) = Inr (l1 @ [CHR 0x0A] @ l2 @ [CHR 0x0A] @ l3 @ [CHR 0x0A] @ after) \<longrightarrow>
            descriptionOf_file env ne fd error False
              = Some (fst (check_excluded ne (slash_text l1 @ [CHR 0x0A] @ slash_text l2 @ [CHR 0x0A] @ slash_text l3)),
                      error,
                      snd (check_excluded ne (slash_text l1 @ [CHR 0x0A] @ slash_text l2 @ [CHR 0x0A] @ slash_text l3))))
       \<and> (trimmed (slash_text l1 @ [CHR 0x0A] @ slash_text l2 @ [CHR 0x0A] @ slash_text l3)
              = slash_text l1 @ [CHR 0x0A] @ slash_text l2 @ [CHR 0x0A] @ slash_text l3
          \<and> \<not> startsWith (slash_text l1 @ [CHR 0x0A] @ slash_text l2 @ [CHR 0x0A] @ slash_text l3) ''@exclude'' \<longrightarrow>
            check_excluded ne (slash_text l1 @ [CHR 0x0A] @ slash_text l2 @ [CHR 0x0A] @ slash_text l3)
              = (slash_text l1 @ [CHR 0x0A] @ slash_text l2 @ [CHR 0x0A] @ slash_text l3, False))
       \<and> scan (terminated_lines bs @ s) [] = Some []
       \<and> (open_file env (file_name fd') = Inr (terminated_lines bs @ s) \<longrightarrow>
            descriptionOf_file env ne fd' error False = Some ([], error, False))"
proof -
  have three: "scan (l1 @ [CHR 0x0A] @ l2 @ [CHR 0x0A] @ l3 @ [CHR 0x0A] @ after) []
           = Some (slash_text l1 @ [CHR 0x0A] @ slash_text l2 @ [CHR 0x0A] @ slash_text l3)"
    using assms(1-5) by (rule scan_three_lines)
  have none: "scan (terminated_lines bs @ s) [] = Some []"
    using assms(6-9) by (simp add: scan_blank_lines scan_no_comment)
  have empty: "check_excluded ne [] = ([], False)"
    by (simp add: check_excluded_def trimmed_def startsWith_def)
  show ?thesis
    using three none
    by (auto simp: descriptionOf_file_scanned check_excluded_plain empty simp del: append_assoc)
qed

theorem whole_file_three_comment_lines_witness:
  "descriptionOf_file documented_env False (example_file ''doc.proto'') [] False
     = Some (''a'' @ [CHR 0x0A] @ ''b'' @ [CHR 0x0A] @ ''c'', [], False)
   \<and> descriptionOf_file documented_env False (example_file ''plain.proto'') [] False = Some ([], [], False)"
proof -
  note claim = whole_file_three_comment_lines
    [of "''/// a''" "''/// b''" "''/// c''" "[CHR 0x0A] @ ''message M {}'' @ [CHR 0x0A]" "[[]]"
        "''message M {}'' @ [CHR 0x0A]" documented_env "example_file ''doc.proto''" False "[]"
        "example_file ''plain.proto''"]
  have lines: "is_slash_line ''/// a''" "is_slash_line ''/// b''" "is_slash_line ''/// c''"
    by (simp_all add: string_evaluation)
  have after: "[CHR 0x0A] @ ''message M {}'' @ [CHR 0x0A] \<noteq> []"
    "trimmed (fst (readLine ([CHR 0x0A] @ ''message M {}'' @ [CHR 0x0A]))) = []"
    by (simp_all add: string_evaluation)
  have blank: "\<forall>b\<in>set [[]]. CHR 0x0A \<notin> set b \<and> trimmed b = []"
    by (simp add: string_evaluation)
  have other: "''message M {}'' @ [CHR 0x0A] = [] \<or> trimmed (fst (readLine (''message M {}'' @ [CHR 0x0A]))) \<noteq> []"
    "\<not> startsWith (trimmed (fst (readLine (''message M {}'' @ [CHR 0x0A])))) ''///''"
    "\<not> (startsWith (trimmed (fst (readLine (''message M {}'' @ [CHR 0x0A])))) ''/**''
            \<and> \<not> startsWith (trimmed (fst (readLine (''message M {}'' @ [CHR 0x0A])))) ''/***/'')"
    by (simp_all add: string_evaluation)
  have doc: "open_file documented_env (file_name (example_file ''doc.proto''))
      = Inr (''/// a'' @ [CHR 0x0A] @ ''/// b'' @ [CHR 0x0A] @ ''/// c'' @ [CHR 0x0A] @ [CHR 0x0A] @ ''message M {}'' @ [CHR 0x0A])"
    by (simp add: documented_env_def example_file_def)
  have plain: "open_file documented_env (file_name (example_file ''plain.proto''))
      = Inr (terminated_lines [[]] @ ''message M {}'' @ [CHR 0x0A])"
    by (simp add: documented_env_def example_file_def terminated_lines_def)
  note result = claim [OF lines after blank other]
  from result doc have "descriptionOf_file documented_env False (example_file ''doc.proto'') [] False
     = Some (fst (check_excluded False (slash_text ''/// a'' @ [CHR 0x0A] @ slash_text ''/// b'' @ [CHR 0x0A] @ slash_text ''/// c'')),
             [],
             snd (check_excluded False (slash_text ''/// a'' @ [CHR 0x0A] @ slash_text ''/// b'' @ [CHR 0x0A] @ slash_text ''/// c'')))"
    by simp
  then have first: "descriptionOf_file documented_env False (example_file ''doc.proto'') [] False
     = Some (''a'' @ [CHR 0x0A] @ ''b'' @ [CHR 0x0A] @ ''c'', [], False)"
    by (simp add: string_evaluation)
  from result plain have second: "descriptionOf_file documented_env False (example_file ''plain.proto'') [] False = Some ([], [], False)"
    by simp
  from first second show ?thesis
    by (rule conjI)
qed

lemma readLine_last: "CHR 0x0A \<notin> set l \<Longrightarrow> readLine l = (l, [])"
  by (induction l) (auto simp: readLine_def)

lemma is_slash_line_nonempty: "is_slash_line l \<Longrightarrow> l \<noteq> []"
  by (auto simp: is_slash_line_def startsWith_def trimmed_def)

lemma scan_slash_lines_unterminated:
  assumes "ls \<noteq> []" and all: "\<forall>l\<in>set ls. is_slash_line l"
  shows "scan (terminated_lines (butlast ls) @ last ls) []
           = Some (QStringList_join [CHR 0x0A] (map slash_text (butlast ls)))"
proof (cases "butlast ls")
  case Nil
  with assms(1) obtain l where ls: "ls = [l]"
    by (cases ls) (auto split: if_splits)
  with all have sl: "is_slash_line l"
    by simp
  then have l: "CHR 0x0A \<notin> set l" "startsWith (trimmed l) ''///''"
    by (simp_all add: is_slash_line_def)
  from l(2) have "trimmed l \<noteq> []"
    by (rule startsWith_nonempty) simp
  with l have "scan l [] = Some []"
    by (subst scan.simps) (simp add: readLine_last Let_def slash_loop_at_end left_def)
  with ls show ?thesis
    by (simp add: terminated_lines_def)
next
  case (Cons l0 rest)
  with assms(1) have ls: "ls = l0 # rest @ [last ls]"
    by (metis append_butlast_last_id append_Cons)
  have "set (l0 # rest) \<subseteq> set ls"
    using Cons by (metis in_set_butlastD subsetI)
  with all have front: "\<forall>l\<in>set (l0 # rest). is_slash_line l"
    by blast
  then have l0: "is_slash_line l0" by simp
  from all assms(1) have lastl: "is_slash_line (last ls)" by simp
  then have lne: "last ls \<noteq> []" and lnl: "CHR 0x0A \<notin> set (last ls)"
    by (simp_all add: is_slash_line_nonempty) (simp add: is_slash_line_def)
  from front have pen: "startsWith (trimmed (last (l0 # rest))) ''///''"
    by (metis is_slash_line_def last_in_set list.distinct(1))
  have "slash_loop (trimmed l0) (terminated_lines rest @ last ls) [] =
         slash_loop (trimmed (last (l0 # rest))) (last ls)
           ([] @ concat (map (\<lambda>l. slash_text l @ [CHR 0x0A]) (butlast (l0 # rest))))"
    using front by (rule slash_loop_lines)
  also have "\<dots> = slash_loop (trimmed (last ls)) []
      (concat (map (\<lambda>l. slash_text l @ [CHR 0x0A]) (butlast (l0 # rest)))
       @ slash_text (last (l0 # rest)) @ [CHR 0x0A])"
    using lne lnl pen
    by (subst slash_loop.simps) (simp add: readLine_last slash_text_def)
  also have "\<dots> = concat (map (\<lambda>l. slash_text l @ [CHR 0x0A]) (butlast (l0 # rest) @ [last (l0 # rest)]))"
    by (simp add: slash_loop_at_end)
  also have "butlast (l0 # rest) @ [last (l0 # rest)] = l0 # rest"
    by (rule append_butlast_last_id) simp
  finally have d: "slash_loop (trimmed l0) (terminated_lines rest @ last ls) [] =
      concat (map (\<lambda>l. slash_text l @ [CHR 0x0A]) (l0 # rest))" .
  have "scan (terminated_lines (l0 # rest) @ last ls) []
      = scan (l0 @ CHR 0x0A # (terminated_lines rest @ last ls)) []"
    by (simp add: terminated_lines_def)
  also have "\<dots> = Some (left (concat (map (\<lambda>l. slash_text l @ [CHR 0x0A]) (l0 # rest)))
                   (int (length (concat (map (\<lambda>l. slash_text l @ [CHR 0x0A]) (l0 # rest)))) - 1))"
    by (simp only: scan_slash_first [OF l0] d)
  also have "\<dots> = Some (QStringList_join [CHR 0x0A] (map slash_text (l0 # rest)))"
    by (subst left_drop_newline) simp_all
  finally show ?thesis
    using Cons by simp
qed

text \<open>
  C9. For a text that consists of /// lines only, the scan gives the texts of
  all the lines but the last one, joined with line feeds, whether the last line
  ends with a line feed or not: the loop asks atEnd before it appends, and
  after the last line is read the stream is at its end. A file of one such line
  has the empty description.
\<close>

theorem last_comment_line_not_appended:
  assumes "ls \<noteq> []" and "\<forall>l\<in>set ls. is_slash_line l"
  shows "scan (terminated_lines ls) [] = Some (QStringList_join [CHR 0x0A] (map slash_text (butlast ls)))
       \<and> scan (terminated_lines (butlast ls) @ last ls) []
           = Some (QStringList_join [CHR 0x0A] (map slash_text (butlast ls)))
       \<and> (open_file env (file_name fd) = Inr (terminated_lines ls) \<longrightarrow>
            descriptionOf_file env ne fd error False
              = Some (fst (check_excluded ne (QStringList_join [CHR 0x0A] (map slash_text (butlast ls)))),
                      error,
                      snd (check_excluded ne (QStringList_join [CHR 0x0A] (map slash_text (butlast ls))))))"
  using scan_slash_lines_to_end [OF assms] scan_slash_lines_unterminated [OF assms]
  by (simp add: descriptionOf_file_scanned)

theorem last_comment_line_not_appended_witness:
  "descriptionOf_file documented_env False (example_file ''comments.proto'') [] False = Some (''a'', [], False)
   \<and> scan (''/// only'' @ [CHR 0x0A]) [] = Some []"
proof -
  have two: "[''/// a'', ''/// b''] \<noteq> []" "\<forall>l\<in>set [''/// a'', ''/// b'']. is_slash_line l"
    by (simp_all add: string_evaluation)
  have one: "[''/// only''] \<noteq> []" "\<forall>l\<in>set [''/// only'']. is_slash_line l"
    by (simp_all add: string_evaluation)
  have opened: "open_file documented_env (file_name (example_file ''comments.proto''))
      = Inr (terminated_lines [''/// a'', ''/// b''])"
    by (simp add: documented_env_def example_file_def terminated_lines_def)
  from last_comment_line_not_appended [OF two, of documented_env "example_file ''comments.proto''" False "[]"] opened
  have "descriptionOf_file documented_env False (example_file ''comments.proto'') [] False
      = Some (fst (check_excluded False (QStringList_join [CHR 0x0A] (map slash_text (butlast [''/// a'', ''/// b''])))),
              [],
              snd (check_excluded False (QStringList_join [CHR 0x0A] (map slash_text (butlast [''/// a'', ''/// b''])))))"
    by simp
  then have first: "descriptionOf_file documented_env False (example_file ''comments.proto'') [] False = Some (''a'', [], False)"
    by (simp add: string_evaluation)
  from last_comment_line_not_appended [OF one, of documented_env "example_file ''comments.proto''" False "[]"]
  have second: "scan (''/// only'' @ [CHR 0x0A]) [] = Some []"
    by (simp add: terminated_lines_def)
  from first second show ?thesis
    by (rule conjI)
qed

subsection \<open>Excluded elements\<close>

lemma descriptionOf_marked:
  assumes "\<not> ne"
    and "startsWith (trimmed (documentation_comment (leading_comments location)
                      @ documentation_comment (trailing_comments location))) ''@exclude''"
  shows "snd (descriptionOf ne location)"
  using assms by (simp add: descriptionOf_def check_excluded_def Let_def)

lemma excluded_field: "snd (descriptionOf ne location) \<Longrightarrow> addField env ne (fd\<lparr>field_location := location\<rparr>) acc = acc"
  by (cases "descriptionOf ne location") (simp add: addField_def)

lemma excluded_extension: "snd (descriptionOf ne location) \<Longrightarrow> addExtension env ne (fd\<lparr>field_location := location\<rparr>) acc = acc"
  by (cases "descriptionOf ne location") (simp add: addExtension_def)

lemma excluded_value: "snd (descriptionOf ne location) \<Longrightarrow> addEnumValue ne (v\<lparr>value_location := location\<rparr>) acc = acc"
  by (cases "descriptionOf ne location") (simp add: addEnumValue_def)

lemma excluded_enum: "snd (descriptionOf ne location) \<Longrightarrow> addEnum ne (e\<lparr>enum_location := location\<rparr>) acc = acc"
  by (cases "descriptionOf ne location") (simp add: addEnum_def)

lemma excluded_message:
  "snd (descriptionOf ne location) \<Longrightarrow>
   addMessages env ne (Descriptor ref location fs xs nested es) acc = acc"
  by (cases "descriptionOf ne location") simp

lemma excluded_method: "snd (descriptionOf ne location) \<Longrightarrow> addMethod ne (m\<lparr>method_location := location\<rparr>) acc = acc"
  by (cases "descriptionOf ne location") (simp add: addMethod_def)

lemma excluded_service: "snd (descriptionOf ne location) \<Longrightarrow> addService ne (s\<lparr>service_location := location\<rparr>) acc = acc"
  by (cases "descriptionOf ne location") (simp add: addService_def)

lemma excluded_file:
  assumes "\<not> ne" and "open_file env (file_name fileDescriptor) = Inr text"
    and "scan text [] = Some description" and "startsWith (trimmed description) ''@exclude''"
  shows "addFile env ne fileDescriptor acc error = Some (acc, error)"
  using assms by (simp add: addFile_def descriptionOf_file_def check_excluded_def Let_def)

text \<open>
  C3. Let noExclude be unset. For a source location whose trimmed description
  starts with \<open>@exclude\<close>, nothing is appended for a field, an extension, an
  enum value, an enum, a method or a service at that location; for a message at
  that location the two lists of the file stay as they are, whatever fields,
  extensions, nested messages and enums the message has; and for a file whose
  scanned description starts with the marker no file record is appended.
\<close>

theorem excluded_elements_absent:
  assumes "\<not> ne"
    and "startsWith (trimmed (documentation_comment (leading_comments location)
                      @ documentation_comment (trailing_comments location))) ''@exclude''"
    and "open_file env (file_name fileDescriptor) = Inr text"
    and "scan text [] = Some description"
    and "startsWith (trimmed description) ''@exclude''"
  shows "addField env ne (fd\<lparr>field_location := location\<rparr>) fields' = fields'
       \<and> addExtension env ne (fd\<lparr>field_location := location\<rparr>) extensions = extensions
       \<and> addEnumValue ne (v\<lparr>value_location := location\<rparr>) values = values
       \<and> addEnum ne (e\<lparr>enum_location := location\<rparr>) enums = enums
       \<and> addMessages env ne (Descriptor ref location fs xs nested es) (messages, enums) = (messages, enums)
       \<and> addMethod ne (m\<lparr>method_location := location\<rparr>) methods = methods
       \<and> addService ne (s\<lparr>service_location := location\<rparr>) services = services
       \<and> addFile env ne fileDescriptor files' error = Some (files', error)"
proof -
  have marked: "snd (descriptionOf ne location)"
    using assms(1,2) by (rule descriptionOf_marked)
  show ?thesis
    using excluded_field [OF marked] excluded_extension [OF marked] excluded_value [OF marked]
      excluded_enum [OF marked] excluded_message [OF marked] excluded_method [OF marked]
      excluded_service [OF marked] excluded_file [OF assms(1,3,4,5)]
    by simp
qed

theorem excluded_elements_absent_witness:
  "addField excluded_env False (example_field\<lparr>field_location := excluded_location\<rparr>) [] = []
   \<and> addMessages excluded_env False
        (Descriptor (TypeRef ''M'' ''pkg.M'' None) excluded_location [example_field] []
           [Descriptor (TypeRef ''N'' ''pkg.M.N'' (Some (TypeRef ''M'' ''pkg.M'' None)))
              \<lparr>leading_comments = [], trailing_comments = []\<rparr> [] [] [] []] []) ([], [])
       = ([], [])
   \<and> addFile excluded_env False (example_file ''internal.proto'') [] [] = Some ([], [])"
proof -
  have flag: "\<not> False" by simp
  have marked: "startsWith (trimmed (documentation_comment (leading_comments excluded_location)
                      @ documentation_comment (trailing_comments excluded_location))) ''@exclude''"
    by (simp add: excluded_location_def documentation_comment_def string_evaluation)
  have opened: "open_file excluded_env (file_name (example_file ''internal.proto''))
      = Inr (''/// @exclude'' @ [CHR 0x0A] @ ''/// internal file'' @ [CHR 0x0A] @ [CHR 0x0A])"
    by (simp add: excluded_env_def)
  have scanned: "scan (''/// @exclude'' @ [CHR 0x0A] @ ''/// internal file'' @ [CHR 0x0A] @ [CHR 0x0A]) []
      = Some (''@exclude'' @ [CHR 0x0A] @ ''internal file'')"
    by (simp add: scan.simps slash_loop.simps string_evaluation left_def Let_def)
  have file_marked: "startsWith (trimmed (''@exclude'' @ [CHR 0x0A] @ ''internal file'')) ''@exclude''"
    by (simp add: string_evaluation)
  note claim = excluded_elements_absent [OF flag marked opened scanned file_marked,
      of example_field "[]" "[]" _ "[]" _ "[]" "TypeRef ''M'' ''pkg.M'' None" "[example_field]" "[]"
        "[Descriptor (TypeRef ''N'' ''pkg.M.N'' (Some (TypeRef ''M'' ''pkg.M'' None)))
              \<lparr>leading_comments = [], trailing_comments = []\<rparr> [] [] [] []]" "[]" "[]"]
  then show ?thesis
    by simp
qed

end
